theory Spec2Isabelle
  imports Main
begin

section \<open>Data model\<close>

text \<open>
  The package \<^verbatim>\<open>httplog\<close> is a chi middleware that logs every request through a zap
  logger. Go byte slices and Go strings are both sequences of bytes; the conversion
  \<^verbatim>\<open>string(b)\<close> copies the bytes unchanged, so both are modelled by \<open>string\<close>.
\<close>

type_synonym bytestring = string

text \<open>
  \<^verbatim>\<open>http.Header\<close> is \<^verbatim>\<open>map[string][]string\<close>. The code only iterates over it and
  takes its length; the iteration order of a Go map is unspecified, so a header is the
  list of its entries in the order in which one particular \<^verbatim>\<open>range\<close> visits them, and
  every theorem below holds for every such order.
\<close>

type_synonym header = "(string \<times> string list) list"

text \<open>
  Values of type \<^verbatim>\<open>interface{}\<close> that reach the package: the field values given to
  \<^verbatim>\<open>LogEntrySetField\<close> and the value a handler panics with.
\<close>

datatype go_value = GoNil | GoString string | GoError string

text \<open>
  A \<^verbatim>\<open>zapcore.ObjectEncoder\<close> receives fields one after the other; it is modelled by
  the list of the fields added so far. \<open>ObjectV\<close> is a nested object (the result of
  \<^verbatim>\<open>AddObject\<close>), \<open>ReflectV\<close> a field made by \<^verbatim>\<open>zap.Reflect\<close>.
\<close>

datatype field_value =
    StringV string
  | IntV int
  | DurationV int
  | ReflectV go_value
  | ObjectV "(string \<times> field_value) list"

type_synonym encoder = "(string \<times> field_value) list"

definition AddString :: "encoder \<Rightarrow> string \<Rightarrow> string \<Rightarrow> encoder" where
  "AddString enc k s = enc @ [(k, StringV s)]"

definition AddInt :: "encoder \<Rightarrow> string \<Rightarrow> int \<Rightarrow> encoder" where
  "AddInt enc k i = enc @ [(k, IntV i)]"

definition AddDuration :: "encoder \<Rightarrow> string \<Rightarrow> int \<Rightarrow> encoder" where
  "AddDuration enc k d = enc @ [(k, DurationV d)]"

definition AddObject :: "encoder \<Rightarrow> string \<Rightarrow> encoder \<Rightarrow> encoder" where
  "AddObject enc k obj = enc @ [(k, ObjectV obj)]"

text \<open>All values that were added to an encoder under the key \<open>k\<close>, in order.\<close>

definition field_values :: "string \<Rightarrow> encoder \<Rightarrow> field_value list" where
  "field_values k enc = map snd (filter (\<lambda>f. fst f = k) enc)"

section \<open>Header redaction\<close>

text \<open>
  \<^verbatim>\<open>strings.ToLower\<close> on a string of ASCII bytes maps \<^verbatim>\<open>'A'..'Z'\<close> to
  \<^verbatim>\<open>'a'..'z'\<close> and leaves every other byte alone. HTTP header names are ASCII
  tokens. On other strings Go lowercases the letters beyond ASCII too; here the bytes
  from 0x80 on are left unchanged. The theorems on headers speak of \<open>ToLower k\<close> and
  use nothing else of it.
\<close>

definition toLower_byte :: "char \<Rightarrow> char" where
  "toLower_byte c =
     (let n = (of_char c :: nat) in if 65 \<le> n \<and> n \<le> 90 then char_of (n + 32) else c)"

definition ToLower :: "string \<Rightarrow> string" where
  "ToLower s = map toLower_byte s"

text \<open>\<^verbatim>\<open>strings.Join(elems, sep)\<close>.\<close>

fun Join :: "string list \<Rightarrow> string \<Rightarrow> string" where
  "Join [] sep = []"
| "Join [x] sep = x"
| "Join (x # y # ys) sep = x @ sep @ Join (y # ys) sep"

definition maskedString :: string where
  "maskedString = ''***''"

text \<open>
  \<^verbatim>\<open>httpHeaderLog.MarshalLogObject\<close>: the loop over the header, one equation for the
  empty rest and one for the loop body with its \<^verbatim>\<open>continue\<close>s and its \<^verbatim>\<open>switch\<close>.
  \<^verbatim>\<open>fmt.Sprintf("[%s]", s)\<close> is \<open>''['' @ s @ '']''\<close>.
\<close>

fun httpHeaderLog_MarshalLogObject :: "header \<Rightarrow> encoder \<Rightarrow> encoder" where
  "httpHeaderLog_MarshalLogObject [] enc = enc"
| "httpHeaderLog_MarshalLogObject ((k0, v) # h) enc =
     (let k = ToLower k0 in
      if (k = ''authorization'' \<or> k = ''cookie'' \<or> k = ''set-cookie'') \<and> length v \<noteq> 0
      then httpHeaderLog_MarshalLogObject h (AddString enc k maskedString)
      else if length v = 0
      then httpHeaderLog_MarshalLogObject h enc
      else if length v = 1
      then httpHeaderLog_MarshalLogObject h (AddString enc k (v ! 0))
      else httpHeaderLog_MarshalLogObject h
             (AddString enc k (''['' @ Join v ''], ['' @ '']'')))"

text \<open>
  The format the specification gives for a header with several values:
  \<^verbatim>\<open>[v1], [v2], ..., [vN]\<close>, written from the specification's words.
\<close>

fun bracket_list :: "string list \<Rightarrow> string" where
  "bracket_list [] = []"
| "bracket_list [v] = ''['' @ v @ '']''"
| "bracket_list (v # w # ws) = ''['' @ v @ ''], '' @ bracket_list (w # ws)"

definition sensitive :: "string \<Rightarrow> bool" where
  "sensitive k \<longleftrightarrow> k = ''authorization'' \<or> k = ''cookie'' \<or> k = ''set-cookie''"

text \<open>What one header entry adds to the encoder (used to state the loop's result).\<close>

definition entry_fields :: "string \<times> string list \<Rightarrow> field_value list" where
  "entry_fields e =
     (case snd e of
        [] \<Rightarrow> []
      | [v] \<Rightarrow> [StringV (if sensitive (ToLower (fst e)) then ''***'' else v)]
      | vs \<Rightarrow> [StringV (if sensitive (ToLower (fst e)) then ''***'' else bracket_list vs)])"

section \<open>Reading streams\<close>

text \<open>
  An \<^verbatim>\<open>io.Reader\<close> as the sequence of the results of its \<^verbatim>\<open>Read\<close> calls:
  \<open>Data p r\<close> returns the bytes \<open>p\<close> with a nil error and continues as \<open>r\<close>,
  \<open>AtEOF\<close> returns \<^verbatim>\<open>io.EOF\<close>, \<open>Failing e\<close> returns the error \<open>e\<close>. How a
  stream is cut into chunks depends on the caller's buffer and on the transport and is
  left open. A stream that never ends is not modelled (\<^verbatim>\<open>io.ReadAll\<close> would not
  return on it).
\<close>

datatype reader = Data bytestring reader | AtEOF | Failing string

datatype go_error = EOF | Err string

fun reader_Read :: "reader \<Rightarrow> bytestring \<times> go_error option \<times> reader" where
  "reader_Read (Data p r) = (p, None, r)"
| "reader_Read AtEOF = ([], Some EOF, AtEOF)"
| "reader_Read (Failing e) = ([], Some (Err e), Failing e)"

text \<open>
  The readers the package builds: a plain stream, and \<^verbatim>\<open>io.TeeReader(r, w)\<close> whose
  writer \<open>w\<close> is a \<^verbatim>\<open>bytes.Buffer\<close>, given by its content. \<^verbatim>\<open>teeReader.Read\<close> writes
  what it has read to \<open>w\<close> when \<^verbatim>\<open>n > 0\<close>; writing to a \<^verbatim>\<open>bytes.Buffer\<close> returns
  no error.
\<close>

datatype io_reader = Plain reader | Tee reader bytestring

fun Read :: "io_reader \<Rightarrow> bytestring \<times> go_error option \<times> io_reader" where
  "Read (Plain r) = (case reader_Read r of (p, err, r') \<Rightarrow> (p, err, Plain r'))"
| "Read (Tee r w) =
     (case reader_Read r of (p, err, r') \<Rightarrow>
        (p, err, Tee r' (if length p > 0 then w @ p else w)))"

fun pending :: "io_reader \<Rightarrow> nat" where
  "pending (Plain r) = size r"
| "pending (Tee r w) = size r"

text \<open>
  \<^verbatim>\<open>io.ReadAll\<close>: the loop appends what each \<^verbatim>\<open>Read\<close> returns and stops at the first
  error, which it returns together with the data read so far; \<^verbatim>\<open>io.EOF\<close> is turned
  into a nil error.
\<close>

function ReadAll_loop ::
  "bytestring \<Rightarrow> io_reader \<Rightarrow> (bytestring \<times> go_error option) \<times> io_reader" where
  "ReadAll_loop b r =
     (case Read r of (p, err, r') \<Rightarrow>
        (case err of
           None \<Rightarrow> ReadAll_loop (b @ p) r'
         | Some e \<Rightarrow> ((b @ p, if e = EOF then None else Some e), r')))"
  by pat_completeness auto
termination
proof (relation "measure (\<lambda>(b, r). pending r)")
  show "wf (measure (\<lambda>(b, r). pending r))" by simp
next
  fix b :: bytestring and r :: io_reader and p x2 err r'
  assume rd: "(p, x2) = Read r" "(err, r') = x2" "err = None"
  then have "Read r = (p, None, r')" by simp
  then have "pending r' < pending r"
    by (cases r; cases "case r of Plain s \<Rightarrow> s | Tee s w \<Rightarrow> s")
       (auto split: prod.splits)
  then show "((b @ p, r'), b, r) \<in> measure (\<lambda>(b, r). pending r)" by simp
qed

definition ReadAll :: "io_reader \<Rightarrow> (bytestring \<times> go_error option) \<times> io_reader" where
  "ReadAll r = ReadAll_loop [] r"

text \<open>
  A \<^verbatim>\<open>bytes.Buffer\<close> with the unread content \<open>b\<close>, as a reader: its content, then
  \<^verbatim>\<open>io.EOF\<close>. \<^verbatim>\<open>io.NopCloser\<close> adds a \<^verbatim>\<open>Close\<close> that does nothing.
\<close>

definition NewBuffer :: "bytestring \<Rightarrow> reader" where
  "NewBuffer b = (if b = [] then AtEOF else Data b AtEOF)"

definition NopCloser :: "reader \<Rightarrow> reader" where
  "NopCloser r = r"

fun buffer_of :: "io_reader \<Rightarrow> bytestring" where
  "buffer_of (Tee r w) = w"
| "buffer_of (Plain r) = []"

text \<open>What a stream delivers before it ends, and the error it ends with, if any.\<close>

fun delivers :: "reader \<Rightarrow> bytestring" where
  "delivers (Data p r) = p @ delivers r"
| "delivers AtEOF = []"
| "delivers (Failing e) = []"

fun failure :: "reader \<Rightarrow> string option" where
  "failure (Data p r) = failure r"
| "failure AtEOF = None"
| "failure (Failing e) = Some e"

text \<open>The stream once everything it delivers has been read.\<close>

fun drained :: "reader \<Rightarrow> reader" where
  "drained (Data p r) = drained r"
| "drained AtEOF = AtEOF"
| "drained (Failing e) = Failing e"

section \<open>The zap logger and the logging sink\<close>

text \<open>
  A \<^verbatim>\<open>zap.Logger\<close> is an immutable value: \<^verbatim>\<open>With\<close> and \<^verbatim>\<open>WithOptions\<close> return a
  new logger and leave the receiver alone. \<open>nop\<close> says that the core is the no-op core
  of \<^verbatim>\<open>zap.NewNop()\<close>, \<open>addStack\<close> is the least level at which zap attaches a stack
  trace of its own (option \<^verbatim>\<open>zap.AddStacktrace\<close>), \<open>with_fields\<close> are the fields added with
  \<^verbatim>\<open>With\<close>. The sink is the list of the records handed to the core, oldest first;
  what the core does with a record (level filtering, sampling, encoding) is the
  backend's business.
\<close>

record logger =
  nop :: bool
  addStack :: int
  with_fields :: encoder

record log_record =
  Level :: int
  Message :: string
  Fields :: encoder
  Stack :: bool

definition InfoLevel :: int where "InfoLevel = 0"
definition WarnLevel :: int where "WarnLevel = 1"
definition ErrorLevel :: int where "ErrorLevel = 2"
definition FatalLevel :: int where "FatalLevel = 5"

definition NewNop :: logger where
  "NewNop = \<lparr>nop = True, addStack = FatalLevel + 1, with_fields = []\<rparr>"

text \<open>\<^verbatim>\<open>Logger.With\<close>; the no-op core ignores the fields.\<close>

definition With :: "logger \<Rightarrow> encoder \<Rightarrow> logger" where
  "With l fs = (if fs = [] \<or> nop l then l else l\<lparr>with_fields := with_fields l @ fs\<rparr>)"

definition AddStacktrace :: "int \<Rightarrow> logger \<Rightarrow> logger" where
  "AddStacktrace lvl l = l\<lparr>addStack := lvl\<rparr>"

text \<open>
  Logging at level \<open>lvl\<close>: one record for the sink, with the logger's own fields before
  the fields of the call, and with zap's stack trace when \<open>lvl\<close> reaches \<open>addStack\<close>.
\<close>

definition logger_log ::
  "logger \<Rightarrow> int \<Rightarrow> string \<Rightarrow> encoder \<Rightarrow> log_record list \<Rightarrow> log_record list" where
  "logger_log l lvl msg fs snk =
     (if nop l then snk
      else snk @ [\<lparr>Level = lvl, Message = msg, Fields = with_fields l @ fs,
                   Stack = (addStack l \<le> lvl)\<rparr>])"

definition Info :: "logger \<Rightarrow> string \<Rightarrow> encoder \<Rightarrow> log_record list \<Rightarrow> log_record list" where
  "Info l msg fs snk = logger_log l InfoLevel msg fs snk"

definition Error :: "logger \<Rightarrow> string \<Rightarrow> encoder \<Rightarrow> log_record list \<Rightarrow> log_record list" where
  "Error l msg fs snk = logger_log l ErrorLevel msg fs snk"

datatype sugared_logger = SugaredLogger logger

definition Sugar :: "logger \<Rightarrow> sugared_logger" where
  "Sugar l = SugaredLogger l"

text \<open>\<^verbatim>\<open>fmt.Sprintf("%+v", v)\<close> for the values of \<open>go_value\<close>.\<close>

fun Sprintf_v :: "go_value \<Rightarrow> string" where
  "Sprintf_v GoNil = ''<nil>''"
| "Sprintf_v (GoString s) = s"
| "Sprintf_v (GoError s) = s"

section \<open>Requests, contexts and the log entry\<close>

text \<open>
  A \<^verbatim>\<open>*zapLogEntry\<close> is a pointer: the context and the interceptor hold the same
  entry, and \<^verbatim>\<open>LogEntrySetField\<close> assigns to its \<^verbatim>\<open>Logger\<close> field. So the entries
  live in a store, addressed by numbers. Every entry the package makes holds the result
  of \<^verbatim>\<open>With\<close>, which is never nil, so the \<^verbatim>\<open>Logger\<close> field is a logger.

  The value a context holds under \<^verbatim>\<open>middleware.LogEntryCtxKey\<close>: nothing, a value of
  another type, or a \<^verbatim>\<open>*zapLogEntry\<close>, which may be the nil pointer.
\<close>

record zapLogEntry =
  Logger :: logger

record state =
  sink :: "log_record list"
  entries :: "nat \<Rightarrow> zapLogEntry"

datatype ctx_value = NoValue | OtherValue | EntryPtr "nat option"

record go_context =
  RequestIDKey :: "string option"
  LogEntryCtxKey :: ctx_value

record request =
  Method :: string
  TLS :: bool
  Host :: string
  RequestURI :: string
  Proto :: string
  ProtoMajor :: int
  RemoteAddr :: string
  Header :: header
  Body :: reader
  Context :: go_context

definition GetReqID :: "go_context \<Rightarrow> string" where
  "GetReqID ctx = (case RequestIDKey ctx of Some reqID \<Rightarrow> reqID | None \<Rightarrow> [])"

definition WithLogEntry :: "request \<Rightarrow> nat \<Rightarrow> request" where
  "WithLogEntry r entry = r\<lparr>Context := (Context r)\<lparr>LogEntryCtxKey := EntryPtr (Some entry)\<rparr>\<rparr>"

definition nil_dereference :: go_value where
  "nil_dereference = GoError ''runtime error: invalid memory address or nil pointer dereference''"

definition RawLogEntry :: "state \<Rightarrow> go_context \<Rightarrow> logger" where
  "RawLogEntry st ctx =
     (case LogEntryCtxKey ctx of
        EntryPtr None \<Rightarrow> NewNop
      | EntryPtr (Some entry) \<Rightarrow> Logger (entries st entry)
      | _ \<Rightarrow> NewNop)"

definition LogEntry :: "state \<Rightarrow> go_context \<Rightarrow> sugared_logger" where
  "LogEntry st ctx = Sugar (RawLogEntry st ctx)"

definition set_Logger :: "nat \<Rightarrow> logger \<Rightarrow> state \<Rightarrow> state" where
  "set_Logger entry l st = st\<lparr>entries := (entries st)(entry := \<lparr>Logger = l\<rparr>)\<rparr>"

definition LogEntrySetField :: "state \<Rightarrow> go_context \<Rightarrow> string \<Rightarrow> go_value \<Rightarrow> go_value + state" where
  "LogEntrySetField st ctx key v =
     (case LogEntryCtxKey ctx of
        EntryPtr None \<Rightarrow> Inl nil_dereference
      | EntryPtr (Some entry) \<Rightarrow>
          Inr (set_Logger entry (With (Logger (entries st entry)) [(key, ReflectV v)]) st)
      | _ \<Rightarrow> Inr st)"

text \<open>
  \<^verbatim>\<open>LogEntrySetFields\<close> ranges over a Go map, given as the list of its pairs in the
  order of the iteration.
\<close>

fun LogEntrySetFields_loop :: "nat \<Rightarrow> (string \<times> go_value) list \<Rightarrow> state \<Rightarrow> state" where
  "LogEntrySetFields_loop entry [] st = st"
| "LogEntrySetFields_loop entry ((k, v) # kvs) st =
     LogEntrySetFields_loop entry kvs
       (set_Logger entry (With (Logger (entries st entry)) [(k, ReflectV v)]) st)"

definition LogEntrySetFields ::
  "state \<Rightarrow> go_context \<Rightarrow> (string \<times> go_value) list \<Rightarrow> go_value + state" where
  "LogEntrySetFields st ctx kvs =
     (case LogEntryCtxKey ctx of
        EntryPtr None \<Rightarrow> (if kvs = [] then Inr st else Inl nil_dereference)
      | EntryPtr (Some entry) \<Rightarrow> Inr (LogEntrySetFields_loop entry kvs st)
      | _ \<Rightarrow> Inr st)"

section \<open>The request snapshot\<close>

text \<open>
  \<^verbatim>\<open>httpRequestLog.MarshalLogObject\<close>. It returns the encoder and the request, whose
  \<^verbatim>\<open>Body\<close> it replaces. \<^verbatim>\<open>defer r.Body.Close()\<close> closes the original body, which
  nothing reads afterwards.
\<close>

definition httpRequestLog_MarshalLogObject :: "request \<Rightarrow> encoder \<Rightarrow> encoder \<times> request" where
  "httpRequestLog_MarshalLogObject r enc =
     (let scheme = (if TLS r then ''https'' else ''http'');
          enc = AddString enc ''method'' (Method r);
          enc = AddString enc ''scheme'' scheme;
          enc = AddString enc ''host'' (Host r);
          enc = AddString enc ''requestURI'' (RequestURI r);
          enc = AddString enc ''proto'' (Proto r);
          enc = AddString enc ''remoteAddr'' (RemoteAddr r);
          enc = (if length (Header r) > 0
                 then AddObject enc ''header'' (httpHeaderLog_MarshalLogObject (Header r) [])
                 else enc);
          reqID = GetReqID (Context r);
          enc = (if reqID \<noteq> [] then AddString enc ''reqId'' reqID else enc);
          b = [];
          reader = Tee (Body r) b;
          (res, reader') = ReadAll reader;
          bytes = fst res;
          enc = (if length bytes \<noteq> 0 then AddString enc ''body'' bytes else enc)
      in (enc, r\<lparr>Body := NopCloser (NewBuffer (buffer_of reader'))\<rparr>))"

text \<open>
  \<^verbatim>\<open>zapdLogFormatter.NewLogEntry\<close>. \<^verbatim>\<open>With(zap.Object("httpRequest", ...))\<close> on a logger
  with zap's standard core encodes the object at once, which runs
  \<^verbatim>\<open>MarshalLogObject\<close> on the request once; the no-op core ignores the field. The new
  entry is allocated at the address \<open>a\<close>.
\<close>

definition zapdLogFormatter_NewLogEntry ::
  "logger \<Rightarrow> nat \<Rightarrow> request \<Rightarrow> state \<Rightarrow> nat \<times> request \<times> state" where
  "zapdLogFormatter_NewLogEntry l a r st =
     (let (logger, r') =
            (if nop l then (l, r)
             else (case httpRequestLog_MarshalLogObject r [] of
                     (obj, r') \<Rightarrow> (With l [(''httpRequest'', ObjectV obj)], r')));
          st = st\<lparr>sink := Info logger ''Request started'' [] (sink st)\<rparr>;
          st = set_Logger a logger st
      in (a, r', st))"

section \<open>The response record and the entry's methods\<close>

datatype extra_value = ExtraLogEntry bytestring | OtherExtra

record httpResponseLog =
  Status :: int
  Bytes :: int
  RespHeader :: header
  Elapsed :: int
  Extra :: extra_value

definition httpResponseLog_MarshalLogObject :: "httpResponseLog \<Rightarrow> encoder \<Rightarrow> encoder" where
  "httpResponseLog_MarshalLogObject r enc =
     (let enc = AddInt enc ''status'' (Status r);
          enc = AddInt enc ''bytes'' (Bytes r);
          enc = AddDuration enc ''elapsed'' (Elapsed r);
          enc = (if length (RespHeader r) > 0
                 then AddObject enc ''header'' (httpHeaderLog_MarshalLogObject (RespHeader r) [])
                 else enc)
      in (case Extra r of
            ExtraLogEntry body \<Rightarrow>
              (if length body \<noteq> 0 then AddString enc ''body'' body else enc)
          | OtherExtra \<Rightarrow> enc))"

definition zapLogEntry_Write ::
  "nat \<Rightarrow> int \<Rightarrow> int \<Rightarrow> header \<Rightarrow> int \<Rightarrow> extra_value \<Rightarrow> state \<Rightarrow> state" where
  "zapLogEntry_Write l status bytes hdr elapsed extra st =
     (let httpResponseLog = \<lparr>Status = status, Bytes = bytes, RespHeader = hdr,
                               Elapsed = elapsed, Extra = extra\<rparr>
      in st\<lparr>sink := Info (Logger (entries st l)) ''Request complete''
                       [(''httpResponse'',
                         ObjectV (httpResponseLog_MarshalLogObject httpResponseLog []))]
                       (sink st)\<rparr>)"

definition zapLogEntry_Panic :: "nat \<Rightarrow> go_value \<Rightarrow> bytestring \<Rightarrow> state \<Rightarrow> state" where
  "zapLogEntry_Panic l v stack st =
     st\<lparr>sink := Error (AddStacktrace (FatalLevel + 1) (Logger (entries st l))) ''Panic''
                    [(''panic'', StringV (Sprintf_v v)), (''stack'', StringV stack)]
                    (sink st)\<rparr>"

section \<open>The response observer\<close>

text \<open>
  The interceptor wraps the response writer with chi's
  \<^verbatim>\<open>middleware.NewWrapResponseWriter\<close>. Its \<^verbatim>\<open>basicWriter\<close> (chi v5, wrap_writer.go),
  as far as the interceptor and a handler that writes and sets a status use it:
  \<^verbatim>\<open>
  func (b *basicWriter) WriteHeader(code int) {
      if !b.wroteHeader { b.code = code; b.wroteHeader = true; b.ResponseWriter.WriteHeader(code) } }
  func (b *basicWriter) Write(buf []byte) (int, error) {
      b.maybeWriteHeader()
      n, err := b.ResponseWriter.Write(buf)
      if b.tee != nil { _, err2 := b.tee.Write(buf[:n]); ... }
      b.bytes += n
      return n, err }
  func (b *basicWriter) maybeWriteHeader() { if !b.wroteHeader { b.WriteHeader(http.StatusOK) } }
  func (b *basicWriter) Status() int       { return b.code }
  func (b *basicWriter) BytesWritten() int { return b.bytes }
  \<close>
  Of the proxied \<^verbatim>\<open>http.ResponseWriter\<close> the model keeps the header map;
  \<open>tee\<close> is the content of the buffer given to \<^verbatim>\<open>Tee\<close>, \<open>None\<close> when there is none.
  \<open>basicWriter_Write b buf n\<close> is a call \<^verbatim>\<open>Write(buf)\<close> in which the proxied writer
  reports \<open>n\<close> bytes written. The method \<^verbatim>\<open>Status\<close> is \<open>Status_of\<close> here
  (\<open>Status\<close> is a field of \<open>httpResponseLog\<close>).
\<close>

record basicWriter =
  ResponseWriter_Header :: header
  wroteHeader :: bool
  code :: int
  bytes :: int
  tee :: "bytestring option"

definition NewWrapResponseWriter :: "header \<Rightarrow> int \<Rightarrow> basicWriter" where
  "NewWrapResponseWriter w protoMajor =
     \<lparr>ResponseWriter_Header = w, wroteHeader = False, code = 0, bytes = 0, tee = None\<rparr>"

definition basicWriter_Tee :: "basicWriter \<Rightarrow> bytestring \<Rightarrow> basicWriter" where
  "basicWriter_Tee b w = b\<lparr>tee := Some w\<rparr>"

definition basicWriter_WriteHeader :: "basicWriter \<Rightarrow> int \<Rightarrow> basicWriter" where
  "basicWriter_WriteHeader b c =
     (if \<not> wroteHeader b then b\<lparr>code := c, wroteHeader := True\<rparr> else b)"

definition basicWriter_maybeWriteHeader :: "basicWriter \<Rightarrow> basicWriter" where
  "basicWriter_maybeWriteHeader b =
     (if \<not> wroteHeader b then basicWriter_WriteHeader b 200 else b)"

definition basicWriter_Write :: "basicWriter \<Rightarrow> bytestring \<Rightarrow> nat \<Rightarrow> basicWriter" where
  "basicWriter_Write b0 buf n =
     (let b = basicWriter_maybeWriteHeader b0;
          b = (case tee b of Some t \<Rightarrow> b\<lparr>tee := Some (t @ take n buf)\<rparr> | None \<Rightarrow> b)
      in b\<lparr>bytes := bytes b + int n\<rparr>)"

definition Status_of :: "basicWriter \<Rightarrow> int" where
  "Status_of b = code b"

definition BytesWritten :: "basicWriter \<Rightarrow> int" where
  "BytesWritten b = bytes b"

section \<open>Handlers\<close>

text \<open>
  The next handler is code the package does not know. It is given by what it does with
  the wrapped writer and with the context of the request it receives, step by step, and
  by how it ends: it returns, or it panics with a value and unwinds through the
  interceptor.
  \<^item> \<open>HWriteHeader c\<close>: \<^verbatim>\<open>w.WriteHeader(c)\<close>;
  \<^item> \<open>HWrite p q\<close>: \<^verbatim>\<open>w.Write(buf)\<close> with \<open>buf = p @ q\<close>, of which the proxied writer
    takes the bytes \<open>p\<close> (all of \<open>buf\<close> when \<open>q\<close> is empty);
  \<^item> \<open>HHeaderPut k vs\<close>: \<^verbatim>\<open>w.Header()[k] = vs\<close>;
  \<^item> \<open>HLog lvl msg fs\<close>: a record logged through the logger that
    \<^verbatim>\<open>RawLogEntry(r.Context())\<close> returns at that moment, at a level below
    \<^verbatim>\<open>DPanicLevel\<close>;
  \<^item> \<open>HSetField\<close>, \<open>HSetFields\<close>: \<^verbatim>\<open>LogEntrySetField\<close> and \<^verbatim>\<open>LogEntrySetFields\<close> on
    the request's context;
  \<^item> \<open>HPanic v stack\<close>: a recovery layer below the interceptor (chi's
    \<^verbatim>\<open>middleware.Recoverer\<close>) has recovered the panic value \<open>v\<close> and calls
    \<^verbatim>\<open>Panic(v, stack)\<close> on the log entry of the request's context, if there is one.
\<close>

datatype log_call = LDebug | LInfo | LWarn | LError

fun level_of :: "log_call \<Rightarrow> int" where
  "level_of LDebug = - 1"
| "level_of LInfo = InfoLevel"
| "level_of LWarn = WarnLevel"
| "level_of LError = ErrorLevel"

datatype op =
    HWriteHeader int
  | HWrite bytestring bytestring
  | HHeaderPut string "string list"
  | HLog log_call string encoder
  | HSetField string go_value
  | HSetFields "(string \<times> go_value) list"
  | HPanic go_value bytestring

datatype outcome = Returns | Panics go_value

type_synonym handler = "request \<Rightarrow> op list \<times> outcome"

fun header_put :: "string \<Rightarrow> string list \<Rightarrow> header \<Rightarrow> header" where
  "header_put k vs [] = [(k, vs)]"
| "header_put k vs ((k', vs') # h) =
     (if k' = k then (k, vs) # h else (k', vs') # header_put k vs h)"

fun run_op :: "go_context \<Rightarrow> op \<Rightarrow> basicWriter \<times> state \<Rightarrow> go_value + basicWriter \<times> state" where
  "run_op ctx (HWriteHeader c) (ww, st) = Inr (basicWriter_WriteHeader ww c, st)"
| "run_op ctx (HWrite p q) (ww, st) = Inr (basicWriter_Write ww (p @ q) (length p), st)"
| "run_op ctx (HHeaderPut k vs) (ww, st) =
     Inr (ww\<lparr>ResponseWriter_Header := header_put k vs (ResponseWriter_Header ww)\<rparr>, st)"
| "run_op ctx (HLog lvl msg fs) (ww, st) =
     Inr (ww, st\<lparr>sink := logger_log (RawLogEntry st ctx) (level_of lvl) msg fs (sink st)\<rparr>)"
| "run_op ctx (HSetField k v) (ww, st) =
     (case LogEntrySetField st ctx k v of Inl p \<Rightarrow> Inl p | Inr st' \<Rightarrow> Inr (ww, st'))"
| "run_op ctx (HSetFields kvs) (ww, st) =
     (case LogEntrySetFields st ctx kvs of Inl p \<Rightarrow> Inl p | Inr st' \<Rightarrow> Inr (ww, st'))"
| "run_op ctx (HPanic v stack) (ww, st) =
     (case LogEntryCtxKey ctx of
        EntryPtr None \<Rightarrow> Inl nil_dereference
      | EntryPtr (Some entry) \<Rightarrow> Inr (ww, zapLogEntry_Panic entry v stack st)
      | _ \<Rightarrow> Inr (ww, st))"

text \<open>A step that panics ends the handler there.\<close>

fun run_ops ::
  "go_context \<Rightarrow> op list \<Rightarrow> outcome \<Rightarrow> basicWriter \<times> state \<Rightarrow> (basicWriter \<times> state) \<times> outcome" where
  "run_ops ctx [] out s = (s, out)"
| "run_ops ctx (x # xs) out s =
     (case run_op ctx x s of
        Inl p \<Rightarrow> (s, Panics p)
      | Inr s' \<Rightarrow> run_ops ctx xs out s')"

definition ServeHTTP ::
  "handler \<Rightarrow> basicWriter \<Rightarrow> request \<Rightarrow> state \<Rightarrow> (basicWriter \<times> state) \<times> outcome" where
  "ServeHTTP next ww r st = run_ops (Context r) (fst (next r)) (snd (next r)) (ww, st)"

section \<open>The interceptor\<close>

text \<open>
  \<^verbatim>\<open>ZapRequestLogger(logger)(next)\<close> serving one request. \<open>a\<close> is the address of the
  entry that \<^verbatim>\<open>NewLogEntry\<close> allocates, \<open>w\<close> the header map of the response writer,
  \<open>t1\<close> the time read before the handler runs and \<open>t2\<close> the time at which the deferred
  function reads the clock. The deferred function runs when the surrounding function
  returns and also when \<^verbatim>\<open>next.ServeHTTP\<close> panics; the function has no
  \<^verbatim>\<open>recover\<close>, so the panic goes on to the caller afterwards: the outcome of the
  handler is the outcome of the interceptor. \<^verbatim>\<open>ioutil.ReadAll(buf)\<close> reads the buffer
  that the writer tees into.
\<close>

definition ZapRequestLogger ::
  "logger \<Rightarrow> handler \<Rightarrow> nat \<Rightarrow> int \<Rightarrow> int \<Rightarrow> header \<Rightarrow> request \<Rightarrow> state
     \<Rightarrow> (basicWriter \<times> state) \<times> outcome" where
  "ZapRequestLogger logger next a t1 t2 w r st =
     (let (entry, r1, st1) = zapdLogFormatter_NewLogEntry logger a r st;
          ww = NewWrapResponseWriter w (ProtoMajor r1);
          buf = [];
          ww = basicWriter_Tee ww buf;
          ((ww', st2), out) = ServeHTTP next ww (WithLogEntry r1 entry) st1;
          buf' = (case tee ww' of Some t \<Rightarrow> t | None \<Rightarrow> []);
          respBody = fst (fst (ReadAll (Plain (NewBuffer buf'))));
          extra = ExtraLogEntry respBody;
          st3 = zapLogEntry_Write entry (Status_of ww') (BytesWritten ww')
                  (ResponseWriter_Header ww') (t2 - t1) extra st2
      in ((ww', st3), out))"

text \<open>Observations used to state the properties.\<close>

text \<open>The fields of the request snapshot that come before the body.\<close>

definition request_meta :: "request \<Rightarrow> encoder" where
  "request_meta r =
     [(''method'', StringV (Method r)),
      (''scheme'', StringV (if TLS r then ''https'' else ''http'')),
      (''host'', StringV (Host r)),
      (''requestURI'', StringV (RequestURI r)),
      (''proto'', StringV (Proto r)),
      (''remoteAddr'', StringV (RemoteAddr r))] @
     (if Header r = [] then []
      else [(''header'', ObjectV (httpHeaderLog_MarshalLogObject (Header r) []))]) @
     (if GetReqID (Context r) = [] then [] else [(''reqId'', StringV (GetReqID (Context r)))])"

text \<open>The bytes of the handler's writes that the proxied writer took, in order.\<close>

fun written :: "op list \<Rightarrow> bytestring" where
  "written [] = []"
| "written (HWrite p q # xs) = p @ written xs"
| "written (x # xs) = written xs"

text \<open>
  The last record of the sink after a request, and the object a record carries in its
  last field (for the completion record: the fields of \<^verbatim>\<open>httpResponse\<close>).
\<close>

definition last_record :: "(basicWriter \<times> state) \<times> outcome \<Rightarrow> log_record" where
  "last_record res = last (sink (snd (fst res)))"

fun object_of :: "field_value \<Rightarrow> encoder" where
  "object_of (ObjectV obj) = obj"
| "object_of x = []"

definition last_object :: "log_record \<Rightarrow> encoder" where
  "last_object rec = object_of (snd (last (Fields rec)))"

fun is_Write :: "op \<Rightarrow> bool" where
  "is_Write (HWrite p q) = True"
| "is_Write x = False"

fun is_WriteHeader :: "op \<Rightarrow> bool" where
  "is_WriteHeader (HWriteHeader c) = True"
| "is_WriteHeader x = False"

text \<open>
  Inputs for the examples: a logger configured as \<^verbatim>\<open>zap.NewProduction()\<close> configures
  it (zap's own stack traces from \<^verbatim>\<open>ErrorLevel\<close> on), a store with an empty sink, and
  a request whose body arrives in two chunks.
\<close>

definition example_logger :: logger where
  "example_logger = \<lparr>nop = False, addStack = ErrorLevel, with_fields = []\<rparr>"

definition example_state :: state where
  "example_state = \<lparr>sink = [], entries = (\<lambda>a. \<lparr>Logger = NewNop\<rparr>)\<rparr>"

definition example_request :: request where
  "example_request =
     \<lparr>Method = ''GET'', TLS = False, Host = ''localhost:5555'', RequestURI = ''/'',
      Proto = ''HTTP/1.1'', ProtoMajor = 1, RemoteAddr = ''127.0.0.1:4000'',
      Header = [(''Cookie'', [''sid=1'']), (''Accept'', [''text/html'', ''text/plain''])],
      Body = Data ''he'' (Data ''llo'' AtEOF),
      Context = \<lparr>RequestIDKey = None, LogEntryCtxKey = NoValue\<rparr>\<rparr>"

section \<open>Properties of the header redaction\<close>

lemma Join_brackets:
  "vs \<noteq> [] \<Longrightarrow> ''['' @ Join vs ''], ['' @ '']'' = bracket_list vs"
  by (induction vs rule: bracket_list.induct) simp_all

lemma header_step_fields:
  "field_values key (httpHeaderLog_MarshalLogObject [e] enc) =
     field_values key enc @ (if ToLower (fst e) = key then entry_fields e else [])"
proof (cases e)
  case (Pair k0 v)
  show ?thesis
  proof (cases v)
    case Nil
    with Pair show ?thesis
      by (simp add: entry_fields_def field_values_def AddString_def)
  next
    case (Cons a as)
    note outer = this
    show ?thesis
    proof (cases as)
      case Nil
      with Pair outer show ?thesis
        by (simp add: entry_fields_def field_values_def AddString_def sensitive_def
            maskedString_def Let_def)
    next
      case (Cons b bs)
      have "''['' @ Join (a # b # bs) ''], ['' @ '']'' = bracket_list (a # b # bs)"
        by (rule Join_brackets) simp
      with Pair outer Cons show ?thesis
        by (simp add: entry_fields_def field_values_def AddString_def sensitive_def
            maskedString_def Let_def)
    qed
  qed
qed

lemma header_loop_split:
  "httpHeaderLog_MarshalLogObject (e # h) enc =
     httpHeaderLog_MarshalLogObject h (httpHeaderLog_MarshalLogObject [e] enc)"
  by (cases e) (simp add: Let_def)

lemma header_loop_fields:
  "field_values key (httpHeaderLog_MarshalLogObject h enc) =
     field_values key enc @
       concat (map entry_fields (filter (\<lambda>e. ToLower (fst e) = key) h))"
proof (induction h arbitrary: enc)
  case Nil
  show ?case by simp
next
  case (Cons e h)
  have "field_values key (httpHeaderLog_MarshalLogObject (e # h) enc) =
        field_values key (httpHeaderLog_MarshalLogObject h
          (httpHeaderLog_MarshalLogObject [e] enc))"
    by (simp only: header_loop_split [of e h enc])
  also have "\<dots> = field_values key (httpHeaderLog_MarshalLogObject [e] enc) @
        concat (map entry_fields (filter (\<lambda>e. ToLower (fst e) = key) h))"
    by (rule Cons.IH)
  finally show ?case
    by (simp add: header_step_fields)
qed

lemma field_values_Nil [simp]: "field_values k [] = []"
  by (simp add: field_values_def)

lemma field_values_absent: "field_values k enc = [] \<longleftrightarrow> k \<notin> fst ` set enc"
  by (induction enc) (auto simp: field_values_def)

lemma field_values_append: "field_values k (xs @ ys) = field_values k xs @ field_values k ys"
  by (simp add: field_values_def)

lemma entry_fields_sensitive:
  "sensitive (ToLower k) \<Longrightarrow> set (entry_fields (k, vs)) \<subseteq> {StringV ''***''}"
  by (cases vs rule: bracket_list.cases) (simp_all add: entry_fields_def)

lemma entry_fields_sensitive_nonempty:
  "sensitive (ToLower k) \<Longrightarrow> vs \<noteq> [] \<Longrightarrow> entry_fields (k, vs) = [StringV ''***'']"
  by (cases vs rule: bracket_list.cases) (simp_all add: entry_fields_def)

text \<open>
  Claim C3. Whatever the header map is, an entry whose name is \<^verbatim>\<open>authorization\<close>,
  \<^verbatim>\<open>cookie\<close> or \<^verbatim>\<open>set-cookie\<close> up to the case of its letters and that has at least
  one value is emitted under the lowercased name, and every field emitted under that
  name is the mask \<^verbatim>\<open>***\<close>: no original value of such a header is in the output under
  its name, however many values it has.
\<close>

theorem C3_sensitive_headers_masked:
  assumes "(k, vs) \<in> set h"
    and "ToLower k = ''authorization'' \<or> ToLower k = ''cookie'' \<or> ToLower k = ''set-cookie''"
    and "vs \<noteq> []"
  shows "set (field_values (ToLower k) (httpHeaderLog_MarshalLogObject h [])) =
           {StringV ''***''}"
proof -
  let ?es = "filter (\<lambda>e. ToLower (fst e) = ToLower k) h"
  have sens: "sensitive (ToLower k)"
    using assms(2) by (simp add: sensitive_def)
  have fv: "field_values (ToLower k) (httpHeaderLog_MarshalLogObject h []) =
      concat (map entry_fields ?es)"
    by (simp add: header_loop_fields)
  have "set (entry_fields e) \<subseteq> {StringV ''***''}" if "e \<in> set ?es" for e
  proof -
    from that have "ToLower (fst e) = ToLower k" by simp
    with sens have "sensitive (ToLower (fst e))" by simp
    then show ?thesis
      using entry_fields_sensitive [of "fst e" "snd e"] by simp
  qed
  then have sub: "set (concat (map entry_fields ?es)) \<subseteq> {StringV ''***''}"
    by auto
  have "(k, vs) \<in> set ?es"
    using assms(1) by simp
  moreover have "StringV ''***'' \<in> set (entry_fields (k, vs))"
    using entry_fields_sensitive_nonempty [OF sens assms(3)] by simp
  ultimately have "StringV ''***'' \<in> set (concat (map entry_fields ?es))"
    by (metis (no_types, lifting) UN_I set_concat set_map image_eqI)
  with sub show ?thesis
    unfolding fv by blast
qed

theorem C3_witness:
  "(''Set-Cookie'', [''a=1'', ''b=2'']) \<in>
     set [(''Accept'', [''text/html'']), (''Set-Cookie'', [''a=1'', ''b=2''])] \<and>
   ToLower ''Set-Cookie'' = ''set-cookie'' \<and>
   set (field_values ''set-cookie''
     (httpHeaderLog_MarshalLogObject
        [(''Accept'', [''text/html'']), (''Set-Cookie'', [''a=1'', ''b=2''])] [])) =
     {StringV ''***''}"
proof -
  have l: "ToLower ''Set-Cookie'' = ''set-cookie''" by code_simp
  have m: "(''Set-Cookie'', [''a=1'', ''b=2'']) \<in>
     set [(''Accept'', [''text/html'']), (''Set-Cookie'', [''a=1'', ''b=2''])]" by simp
  have s: "ToLower ''Set-Cookie'' = ''authorization'' \<or> ToLower ''Set-Cookie'' = ''cookie'' \<or>
     ToLower ''Set-Cookie'' = ''set-cookie''" by (simp add: l)
  have n: "[''a=1'', ''b=2''] \<noteq> []" by simp
  from C3_sensitive_headers_masked [OF m s n] l m show ?thesis by simp
qed

text \<open>
  Claim C8. Take a header entry \<open>(k, vs)\<close> whose lowercased name is not one of the three
  masked names and which is the only entry of the map with that lowercased name (a map
  kept by \<^verbatim>\<open>http.Header\<close>'s own methods has one entry for a name). With no value,
  nothing is emitted under the lowercased name; with one value, that value unchanged;
  with several, the one string \<^verbatim>\<open>[v1], [v2], ..., [vN]\<close> in the order of the values.
\<close>

theorem C8_plain_headers:
  assumes "filter (\<lambda>e. ToLower (fst e) = ToLower k) h = [(k, vs)]"
    and "ToLower k \<noteq> ''authorization''" and "ToLower k \<noteq> ''cookie''"
    and "ToLower k \<noteq> ''set-cookie''"
  shows "field_values (ToLower k) (httpHeaderLog_MarshalLogObject h []) =
           (case vs of
              [] \<Rightarrow> []
            | [v] \<Rightarrow> [StringV v]
            | _ \<Rightarrow> [StringV (bracket_list vs)]) \<and>
         (ToLower k \<in> fst ` set (httpHeaderLog_MarshalLogObject h []) \<longleftrightarrow> vs \<noteq> [])"
proof -
  have ns: "\<not> sensitive (ToLower k)"
    using assms(2-4) by (simp add: sensitive_def)
  have fv: "field_values (ToLower k) (httpHeaderLog_MarshalLogObject h []) =
      entry_fields (k, vs)"
    by (simp add: header_loop_fields assms(1))
  have ef: "entry_fields (k, vs) =
      (case vs of [] \<Rightarrow> [] | [v] \<Rightarrow> [StringV v] | _ \<Rightarrow> [StringV (bracket_list vs)])"
    using ns by (simp add: entry_fields_def split: list.splits)
  have "(ToLower k \<in> fst ` set (httpHeaderLog_MarshalLogObject h [])) \<longleftrightarrow>
      field_values (ToLower k) (httpHeaderLog_MarshalLogObject h []) \<noteq> []"
    by (simp add: field_values_absent)
  also have "\<dots> \<longleftrightarrow> vs \<noteq> []"
    unfolding fv ef by (simp split: list.splits)
  finally show ?thesis
    using fv ef by simp
qed

theorem C8_witness:
  "field_values ''accept''
     (httpHeaderLog_MarshalLogObject
        [(''Accept'', [''text/html'', ''text/plain'']), (''X-Empty'', []), (''Host'', [''h''])] []) =
     [StringV ''[text/html], [text/plain]''] \<and>
   ''x-empty'' \<notin> fst ` set (httpHeaderLog_MarshalLogObject
        [(''Accept'', [''text/html'', ''text/plain'']), (''X-Empty'', []), (''Host'', [''h''])] []) \<and>
   field_values ''host''
     (httpHeaderLog_MarshalLogObject
        [(''Accept'', [''text/html'', ''text/plain'']), (''X-Empty'', []), (''Host'', [''h''])] []) =
     [StringV ''h'']"
proof -
  let ?h = "[(''Accept'', [''text/html'', ''text/plain'']), (''X-Empty'', []), (''Host'', [''h''])]"
  have la: "ToLower ''Accept'' = ''accept''" and le: "ToLower ''X-Empty'' = ''x-empty''"
    and lh: "ToLower ''Host'' = ''host''"
    by code_simp+
  have fa: "filter (\<lambda>e. ToLower (fst e) = ToLower ''Accept'') ?h =
      [(''Accept'', [''text/html'', ''text/plain''])]"
    by (simp add: la le lh)
  have fe: "filter (\<lambda>e. ToLower (fst e) = ToLower ''X-Empty'') ?h = [(''X-Empty'', [])]"
    by (simp add: la le lh)
  have fh: "filter (\<lambda>e. ToLower (fst e) = ToLower ''Host'') ?h = [(''Host'', [''h''])]"
    by (simp add: la le lh)
  from C8_plain_headers [OF fa] C8_plain_headers [OF fe] C8_plain_headers [OF fh]
  show ?thesis
    by (simp add: la le lh)
qed

section \<open>Properties of the request snapshot\<close>

declare ReadAll_loop.simps [simp del]

lemma ReadAll_loop_Plain:
  "ReadAll_loop b (Plain r) =
     ((b @ delivers r, map_option Err (failure r)), Plain (drained r))"
proof (induction r arbitrary: b)
  case (Data p r)
  have "ReadAll_loop b (Plain (Data p r)) = ReadAll_loop (b @ p) (Plain r)"
    by (subst ReadAll_loop.simps) simp
  with Data show ?case by simp
next
  case AtEOF
  show ?case by (subst ReadAll_loop.simps) simp
next
  case (Failing e)
  show ?case by (subst ReadAll_loop.simps) simp
qed

lemma ReadAll_loop_Tee:
  "ReadAll_loop b (Tee r w) =
     ((b @ delivers r, map_option Err (failure r)), Tee (drained r) (w @ delivers r))"
proof (induction r arbitrary: b w)
  case (Data p r)
  have "ReadAll_loop b (Tee (Data p r) w) = ReadAll_loop (b @ p) (Tee r (w @ p))"
    by (subst ReadAll_loop.simps) simp
  with Data show ?case by simp
next
  case AtEOF
  show ?case by (subst ReadAll_loop.simps) simp
next
  case (Failing e)
  show ?case by (subst ReadAll_loop.simps) simp
qed

lemma delivers_NewBuffer: "delivers (NewBuffer b) = b"
  by (simp add: NewBuffer_def)

lemma failure_NewBuffer: "failure (NewBuffer b) = None"
  by (simp add: NewBuffer_def)

lemma ReadAll_NewBuffer: "fst (ReadAll (Plain (NewBuffer b))) = (b, None)"
  by (simp add: ReadAll_def ReadAll_loop_Plain delivers_NewBuffer failure_NewBuffer)

lemma httpRequestLog_MarshalLogObject_eq:
  "httpRequestLog_MarshalLogObject r enc =
     (enc @ request_meta r @
        (if delivers (Body r) = [] then [] else [(''body'', StringV (delivers (Body r)))]),
      r\<lparr>Body := NewBuffer (delivers (Body r))\<rparr>)"
  by (simp add: httpRequestLog_MarshalLogObject_def Let_def ReadAll_def ReadAll_loop_Tee
      request_meta_def AddString_def AddObject_def NopCloser_def)

lemma request_meta_no_body: "field_values ''body'' (request_meta r) = []"
  by (simp add: request_meta_def field_values_def)

lemma NewLogEntry_eq:
  "\<not> nop logger \<Longrightarrow>
   zapdLogFormatter_NewLogEntry logger a r st =
     (a, r\<lparr>Body := NewBuffer (delivers (Body r))\<rparr>,
      set_Logger a
        (logger\<lparr>with_fields := with_fields logger @
           [(''httpRequest'', ObjectV (request_meta r @
              (if delivers (Body r) = [] then []
               else [(''body'', StringV (delivers (Body r)))])))]\<rparr>)
        (st\<lparr>sink := sink st @
           [\<lparr>Level = InfoLevel, Message = ''Request started'',
             Fields = with_fields logger @
               [(''httpRequest'', ObjectV (request_meta r @
                  (if delivers (Body r) = [] then []
                   else [(''body'', StringV (delivers (Body r)))])))],
             Stack = (addStack logger \<le> InfoLevel)\<rparr>]\<rparr>))"
  by (simp add: zapdLogFormatter_NewLogEntry_def httpRequestLog_MarshalLogObject_eq With_def
      Info_def logger_log_def Let_def)

lemma Body_WithLogEntry: "Body (WithLogEntry r entry) = Body r"
  by (simp add: WithLogEntry_def)

lemma sink_set_Logger: "sink (set_Logger a l st) = sink st"
  by (simp add: set_Logger_def)

lemma Logger_set_Logger: "Logger (entries (set_Logger a l st) a) = l"
  by (simp add: set_Logger_def)

lemma ZapRequestLogger_next:
  "zapdLogFormatter_NewLogEntry logger a r st = (entry, r', st') \<Longrightarrow>
   ZapRequestLogger logger next a t1 t2 w r st =
     ZapRequestLogger logger (\<lambda>_. next (WithLogEntry r' entry)) a t1 t2 w r st"
  by (simp add: ZapRequestLogger_def ServeHTTP_def Let_def)

text \<open>
  Claim C1. Let the body of the request deliver the bytes \<open>B = delivers (Body r)\<close>. After
  \<^verbatim>\<open>NewLogEntry\<close> has built the snapshot, the interceptor calls the next handler with
  the request \<open>WithLogEntry r' entry\<close> and nothing else of the request; reading the body
  of that request to its end gives exactly \<open>B\<close> and no error; and the one record that
  \<^verbatim>\<open>NewLogEntry\<close> emits, \<^verbatim>\<open>Request started\<close>, carries in its \<^verbatim>\<open>httpRequest\<close>
  object the field \<^verbatim>\<open>body\<close> with \<open>B\<close>, or no field \<^verbatim>\<open>body\<close> at all when \<open>B\<close> is empty.
  The logger is one whose core takes records (not the no-op logger).
\<close>

theorem C1_request_body_preserved:
  assumes "\<not> nop logger"
  shows "case zapdLogFormatter_NewLogEntry logger a r st of (entry, r', st') \<Rightarrow>
           ZapRequestLogger logger hdl a ta tb w r st =
             ZapRequestLogger logger (\<lambda>_. hdl (WithLogEntry r' entry)) a ta tb w r st \<and>
           fst (ReadAll (Plain (Body (WithLogEntry r' entry)))) = (delivers (Body r), None) \<and>
           (\<exists>obj. sink st' = sink st @
                     [\<lparr>Level = InfoLevel, Message = ''Request started'',
                       Fields = with_fields logger @ [(''httpRequest'', ObjectV obj)],
                       Stack = (addStack logger \<le> InfoLevel)\<rparr>] \<and>
                  field_values ''body'' obj =
                    (if delivers (Body r) = [] then [] else [StringV (delivers (Body r))]))"
proof -
  obtain entry r' st' where n: "zapdLogFormatter_NewLogEntry logger a r st = (entry, r', st')"
    by (cases "zapdLogFormatter_NewLogEntry logger a r st") auto
  note e = n [unfolded NewLogEntry_eq [OF assms]]
  have r': "r' = r\<lparr>Body := NewBuffer (delivers (Body r))\<rparr>" using e by simp
  have 1: "fst (ReadAll (Plain (Body (WithLogEntry r' entry)))) = (delivers (Body r), None)"
    by (simp add: r' Body_WithLogEntry ReadAll_NewBuffer)
  let ?obj = "request_meta r @
     (if delivers (Body r) = [] then [] else [(''body'', StringV (delivers (Body r)))])"
  have 2: "sink st' = sink st @
                     [\<lparr>Level = InfoLevel, Message = ''Request started'',
                       Fields = with_fields logger @ [(''httpRequest'', ObjectV ?obj)],
                       Stack = (addStack logger \<le> InfoLevel)\<rparr>]"
    using e by (auto simp: sink_set_Logger)
  have 3: "field_values ''body'' ?obj =
      (if delivers (Body r) = [] then [] else [StringV (delivers (Body r))])"
    by (simp add: field_values_append request_meta_no_body) (simp add: field_values_def)
  from 2 3 have "\<exists>obj. sink st' = sink st @
                     [\<lparr>Level = InfoLevel, Message = ''Request started'',
                       Fields = with_fields logger @ [(''httpRequest'', ObjectV obj)],
                       Stack = (addStack logger \<le> InfoLevel)\<rparr>] \<and>
                  field_values ''body'' obj =
                    (if delivers (Body r) = [] then [] else [StringV (delivers (Body r))])"
    by blast
  with 1 ZapRequestLogger_next [OF n] show ?thesis
    unfolding n by simp
qed

theorem C1_witness:
  "\<not> nop example_logger \<and>
   delivers (Body example_request) = ''hello'' \<and>
   (case zapdLogFormatter_NewLogEntry example_logger 0 example_request example_state of
      (entry, r', st') \<Rightarrow>
        fst (ReadAll (Plain (Body (WithLogEntry r' entry)))) = (''hello'', None) \<and>
        map Message (sink st') = [''Request started''] \<and>
        field_values ''body'' (last_object (last (sink st'))) = [StringV ''hello''])"
proof -
  have n: "\<not> nop example_logger" by (simp add: example_logger_def)
  have d: "delivers (Body example_request) = ''hello''" by (simp add: example_request_def)
  obtain entry r' st' where
    e: "zapdLogFormatter_NewLogEntry example_logger 0 example_request example_state =
      (entry, r', st')"
    by (cases "zapdLogFormatter_NewLogEntry example_logger 0 example_request example_state")
  from C1_request_body_preserved [OF n, where a = 0 and r = example_request
      and st = example_state and hdl = "\<lambda>q. ([], Returns)" and ta = 0 and tb = 0
      and w = "[]"]
  obtain obj where
    1: "fst (ReadAll (Plain (Body (WithLogEntry r' entry)))) = (''hello'', None)"
    and 2: "sink st' = sink example_state @
        [\<lparr>Level = InfoLevel, Message = ''Request started'',
          Fields = with_fields example_logger @ [(''httpRequest'', ObjectV obj)],
          Stack = (addStack example_logger \<le> InfoLevel)\<rparr>]"
    and 3: "field_values ''body'' obj = [StringV ''hello'']"
    unfolding e d by auto
  have "map Message (sink st') = [''Request started'']"
    by (simp add: 2 example_state_def)
  moreover have "field_values ''body'' (last_object (last (sink st'))) = [StringV ''hello'']"
    by (simp add: 2 3 last_object_def)
  ultimately show ?thesis
    using n d 1 by (simp add: e)
qed

text \<open>
  Claim C4, as amended. When reading the body fails, \<^verbatim>\<open>io.ReadAll\<close> returns the bytes
  read before the failure together with the error, and the code drops the error only.
  So \<^verbatim>\<open>MarshalLogObject\<close> still returns: the field \<^verbatim>\<open>body\<close> holds the bytes that were
  delivered before the failure (no field when there were none), and the body it leaves
  in the request yields those bytes and then ends without an error.
\<close>

theorem C4_body_read_failure:
  assumes "failure (Body r) = Some e"
  shows "case httpRequestLog_MarshalLogObject r enc of (enc', r') \<Rightarrow>
           field_values ''body'' enc' = field_values ''body'' enc @
             (if delivers (Body r) = [] then [] else [StringV (delivers (Body r))]) \<and>
           ReadAll (Plain (Body r')) = ((delivers (Body r), None), Plain AtEOF)"
  by (simp add: httpRequestLog_MarshalLogObject_eq field_values_append request_meta_no_body
      ReadAll_def ReadAll_loop_Plain delivers_NewBuffer failure_NewBuffer)
    (simp add: field_values_def NewBuffer_def)

theorem C4_witness:
  "failure (Failing ''timeout'') = Some ''timeout'' \<and>
   (case httpRequestLog_MarshalLogObject (example_request\<lparr>Body := Failing ''timeout''\<rparr>) [] of
      (enc', r') \<Rightarrow>
        field_values ''body'' enc' = [] \<and>
        ReadAll (Plain (Body r')) = (([], None), Plain AtEOF))"
  using C4_body_read_failure [of "example_request\<lparr>Body := Failing ''timeout''\<rparr>" "''timeout''" "[]"]
  by (simp split: prod.splits)

text \<open>
  The claim as it was stated fails when the stream delivers bytes before it fails: the
  snapshot then logs those bytes.
\<close>

theorem C4_counterexample:
  "failure (Data ''partial'' (Failing ''connection reset'')) = Some ''connection reset'' \<and>
   field_values ''body'' (fst (httpRequestLog_MarshalLogObject
     (example_request\<lparr>Body := Data ''partial'' (Failing ''connection reset'')\<rparr>) [])) =
     [StringV ''partial'']"
  by code_simp

section \<open>Properties of the interceptor\<close>

lemma nop_With: "nop (With l fs) = nop l"
  by (simp add: With_def)

lemma sink_SetFields_loop: "sink (LogEntrySetFields_loop a kvs st) = sink st"
  by (induction a kvs st rule: LogEntrySetFields_loop.induct) (simp_all add: sink_set_Logger)

lemma nop_SetFields_loop:
  "nop (Logger (entries (LogEntrySetFields_loop a kvs st) a)) = nop (Logger (entries st a))"
  by (induction a kvs st rule: LogEntrySetFields_loop.induct)
     (simp_all add: Logger_set_Logger nop_With)

lemma run_op_valid:
  assumes "LogEntryCtxKey ctx = EntryPtr (Some a)"
  shows "\<exists>ww' st'. run_op ctx x (ww, st) = Inr (ww', st') \<and>
           tee ww' = map_option (\<lambda>t. t @ written [x]) (tee ww) \<and>
           bytes ww' = bytes ww + int (length (written [x])) \<and>
           (\<exists>H. sink st' = sink st @ H) \<and>
           nop (Logger (entries st' a)) = nop (Logger (entries st a))"
proof (cases x)
  case (HWriteHeader c)
  then show ?thesis
    by (cases "tee ww") (simp_all add: basicWriter_WriteHeader_def)
next
  case (HWrite p q)
  then show ?thesis
    by (cases "tee ww")
       (simp_all add: basicWriter_Write_def basicWriter_maybeWriteHeader_def
          basicWriter_WriteHeader_def Let_def)
next
  case (HHeaderPut k vs)
  then show ?thesis by (cases "tee ww") simp_all
next
  case (HLog lvl msg fs)
  then show ?thesis by (cases "tee ww") (simp_all add: logger_log_def)
next
  case (HSetField k v)
  then show ?thesis
    using assms
    by (cases "tee ww") (simp_all add: LogEntrySetField_def set_Logger_def nop_With)
next
  case (HSetFields kvs)
  then show ?thesis
    using assms
    by (cases "tee ww")
       (simp_all add: LogEntrySetFields_def sink_SetFields_loop nop_SetFields_loop)
next
  case (HPanic v stack)
  then show ?thesis
    using assms
    by (cases "tee ww") (simp_all add: zapLogEntry_Panic_def Error_def logger_log_def)
qed

lemma written_Cons: "written (x # xs) = written [x] @ written xs"
  by (cases x) simp_all

lemma run_ops_valid:
  assumes "LogEntryCtxKey ctx = EntryPtr (Some a)"
  shows "\<exists>ww' st'. run_ops ctx xs out (ww, st) = ((ww', st'), out) \<and>
           tee ww' = map_option (\<lambda>t. t @ written xs) (tee ww) \<and>
           bytes ww' = bytes ww + int (length (written xs)) \<and>
           (\<exists>H. sink st' = sink st @ H) \<and>
           nop (Logger (entries st' a)) = nop (Logger (entries st a))"
proof (induction xs arbitrary: ww st)
  case Nil
  show ?case by (cases "tee ww") simp_all
next
  case (Cons x xs)
  from run_op_valid [OF assms, of x ww st] obtain ww1 st1 H1 where
    step: "run_op ctx x (ww, st) = Inr (ww1, st1)"
      "tee ww1 = map_option (\<lambda>t. t @ written [x]) (tee ww)"
      "bytes ww1 = bytes ww + int (length (written [x]))"
      "sink st1 = sink st @ H1"
      "nop (Logger (entries st1 a)) = nop (Logger (entries st a))"
    by blast
  from Cons.IH [of ww1 st1] obtain ww' st' H2 where
    rest: "run_ops ctx xs out (ww1, st1) = ((ww', st'), out)"
      "tee ww' = map_option (\<lambda>t. t @ written xs) (tee ww1)"
      "bytes ww' = bytes ww1 + int (length (written xs))"
      "sink st' = sink st1 @ H2"
      "nop (Logger (entries st' a)) = nop (Logger (entries st1 a))"
    by blast
  have "run_ops ctx (x # xs) out (ww, st) = ((ww', st'), out)"
    using step(1) rest(1) by simp
  moreover have "tee ww' = map_option (\<lambda>t. t @ written (x # xs)) (tee ww)"
    using step(2) rest(2) by (cases "tee ww") (simp_all add: written_Cons [of x xs])
  moreover have "bytes ww' = bytes ww + int (length (written (x # xs)))"
    using step(3) rest(3) by (simp add: written_Cons [of x xs])
  moreover have "sink st' = sink st @ (H1 @ H2)"
    using step(4) rest(4) by simp
  moreover have "nop (Logger (entries st' a)) = nop (Logger (entries st a))"
    using step(5) rest(5) by simp
  ultimately show ?case by blast
qed

lemma run_op_code:
  assumes "LogEntryCtxKey ctx = EntryPtr (Some a)"
    and "run_op ctx x (ww, st) = Inr (ww', st')"
  shows "wroteHeader ww' = (wroteHeader ww \<or> is_Write x \<or> is_WriteHeader x) \<and>
         code ww' =
           (if wroteHeader ww then code ww
            else case x of HWriteHeader c \<Rightarrow> c | HWrite p q \<Rightarrow> 200 | _ \<Rightarrow> code ww)"
proof (cases x)
  case (HWriteHeader c)
  with assms(2) show ?thesis by (auto simp: basicWriter_WriteHeader_def)
next
  case (HWrite p q)
  with assms(2) show ?thesis
    by (cases "tee ww")
       (auto simp: basicWriter_Write_def basicWriter_maybeWriteHeader_def
          basicWriter_WriteHeader_def Let_def)
next
  case (HHeaderPut k vs)
  with assms(2) show ?thesis by auto
next
  case (HLog lvl msg fs)
  with assms(2) show ?thesis by auto
next
  case (HSetField k v)
  with assms show ?thesis by (auto simp: LogEntrySetField_def)
next
  case (HSetFields kvs)
  with assms show ?thesis by (auto simp: LogEntrySetFields_def)
next
  case (HPanic v stack)
  with assms show ?thesis by auto
qed

lemma run_ops_code_wrote:
  assumes "LogEntryCtxKey ctx = EntryPtr (Some a)"
  shows "run_ops ctx xs out (ww, st) = ((ww', st'), out') \<Longrightarrow> wroteHeader ww \<Longrightarrow>
           code ww' = code ww \<and> wroteHeader ww'"
proof (induction xs arbitrary: ww st)
  case Nil
  then show ?case by simp
next
  case (Cons x xs)
  from run_op_valid [OF assms, of x ww st] obtain ww1 st1 where
    step: "run_op ctx x (ww, st) = Inr (ww1, st1)" by blast
  from run_op_code [OF assms step] Cons.prems(2)
  have "wroteHeader ww1" "code ww1 = code ww" by simp_all
  moreover have "run_ops ctx xs out (ww1, st1) = ((ww', st'), out')"
    using Cons.prems(1) step by simp
  ultimately show ?case
    using Cons.IH [of ww1 st1] by simp
qed

lemma run_ops_code_none:
  assumes "LogEntryCtxKey ctx = EntryPtr (Some a)"
  shows "run_ops ctx xs out (ww, st) = ((ww', st'), out') \<Longrightarrow> \<not> wroteHeader ww \<Longrightarrow>
           \<not> list_ex is_WriteHeader xs \<Longrightarrow>
           code ww' = (if list_ex is_Write xs then 200 else code ww)"
proof (induction xs arbitrary: ww st)
  case Nil
  then show ?case by simp
next
  case (Cons x xs)
  from run_op_valid [OF assms, of x ww st] obtain ww1 st1 where
    step: "run_op ctx x (ww, st) = Inr (ww1, st1)" by blast
  have rest: "run_ops ctx xs out (ww1, st1) = ((ww', st'), out')"
    using Cons.prems(1) step by simp
  have nh: "\<not> is_WriteHeader x" "\<not> list_ex is_WriteHeader xs"
    using Cons.prems(3) by simp_all
  show ?case
  proof (cases "is_Write x")
    case True
    then obtain p q where x: "x = HWrite p q" by (cases x) simp_all
    from run_op_code [OF assms step] Cons.prems(2) x
    have "wroteHeader ww1" "code ww1 = 200" by simp_all
    with run_ops_code_wrote [OF assms rest] True show ?thesis by simp
  next
    case False
    with run_op_code [OF assms step] Cons.prems(2) nh(1)
    have "\<not> wroteHeader ww1" "code ww1 = code ww"
      by (cases x; simp)+
    with Cons.IH [OF rest _ nh(2)] False show ?thesis by simp
  qed
qed

lemma run_ops_code_set:
  assumes "LogEntryCtxKey ctx = EntryPtr (Some a)"
  shows "run_ops ctx (pre @ HWriteHeader c # rest) out (ww, st) = ((ww', st'), out') \<Longrightarrow>
           \<not> wroteHeader ww \<Longrightarrow> \<not> list_ex is_WriteHeader pre \<Longrightarrow> \<not> list_ex is_Write pre \<Longrightarrow>
           code ww' = c"
proof (induction pre arbitrary: ww st)
  case Nil
  from run_op_valid [OF assms, of "HWriteHeader c" ww st] obtain ww1 st1 where
    step: "run_op ctx (HWriteHeader c) (ww, st) = Inr (ww1, st1)" by blast
  have rest: "run_ops ctx rest out (ww1, st1) = ((ww', st'), out')"
    using Nil.prems(1) step by simp
  from run_op_code [OF assms step] Nil.prems(2)
  have "wroteHeader ww1" "code ww1 = c" by simp_all
  with run_ops_code_wrote [OF assms rest] show ?case by simp
next
  case (Cons x pre)
  from run_op_valid [OF assms, of x ww st] obtain ww1 st1 where
    step: "run_op ctx x (ww, st) = Inr (ww1, st1)" by blast
  have rest: "run_ops ctx (pre @ HWriteHeader c # rest) out (ww1, st1) = ((ww', st'), out')"
    using Cons.prems(1) step by simp
  have nx: "\<not> is_WriteHeader x" "\<not> is_Write x"
    and np: "\<not> list_ex is_WriteHeader pre" "\<not> list_ex is_Write pre"
    using Cons.prems(3,4) by simp_all
  from run_op_code [OF assms step] Cons.prems(2) nx
  have "\<not> wroteHeader ww1" by simp
  from Cons.IH [OF rest this np] show ?case .
qed

lemma httpResponseLog_MarshalLogObject_eq:
  "httpResponseLog_MarshalLogObject
     \<lparr>Status = s, Bytes = n, RespHeader = h, Elapsed = d, Extra = ExtraLogEntry body\<rparr> [] =
     [(''status'', IntV s), (''bytes'', IntV n), (''elapsed'', DurationV d)] @
     (if h = [] then [] else [(''header'', ObjectV (httpHeaderLog_MarshalLogObject h []))]) @
     (if body = [] then [] else [(''body'', StringV body)])"
  by (simp add: httpResponseLog_MarshalLogObject_def Let_def AddInt_def AddDuration_def
      AddObject_def AddString_def)

lemma httpResponse_fields:
  "field_values ''status'' (httpResponseLog_MarshalLogObject
     \<lparr>Status = s, Bytes = n, RespHeader = h, Elapsed = d, Extra = ExtraLogEntry body\<rparr> []) =
     [IntV s]"
  "field_values ''bytes'' (httpResponseLog_MarshalLogObject
     \<lparr>Status = s, Bytes = n, RespHeader = h, Elapsed = d, Extra = ExtraLogEntry body\<rparr> []) =
     [IntV n]"
  "field_values ''body'' (httpResponseLog_MarshalLogObject
     \<lparr>Status = s, Bytes = n, RespHeader = h, Elapsed = d, Extra = ExtraLogEntry body\<rparr> []) =
     (if body = [] then [] else [StringV body])"
  by (simp_all add: httpResponseLog_MarshalLogObject_eq field_values_def)

text \<open>One request through the interceptor, step by step.\<close>

lemma ZapRequestLogger_run:
  assumes "\<not> nop logger"
  shows "\<exists>started H lg ww2 st1 st2 st3.
      zapdLogFormatter_NewLogEntry logger a r st =
        (a, r\<lparr>Body := NewBuffer (delivers (Body r))\<rparr>, st1) \<and>
      sink st1 = sink st @ [started] \<and>
      Message started = ''Request started'' \<and> Level started = InfoLevel \<and>
      ServeHTTP (\<lambda>q. (ops, out))
        (basicWriter_Tee (NewWrapResponseWriter w (ProtoMajor r)) [])
        (WithLogEntry (r\<lparr>Body := NewBuffer (delivers (Body r))\<rparr>) a) st1 = ((ww2, st2), out) \<and>
      sink st2 = sink st1 @ H \<and>
      tee ww2 = Some (written ops) \<and>
      bytes ww2 = int (length (written ops)) \<and>
      Logger (entries st2 a) = lg \<and> \<not> nop lg \<and>
      ZapRequestLogger logger (\<lambda>q. (ops, out)) a t1 t2 w r st = ((ww2, st3), out) \<and>
      sink st3 = sink st2 @
        [\<lparr>Level = InfoLevel, Message = ''Request complete'',
          Fields = with_fields lg @
            [(''httpResponse'', ObjectV (httpResponseLog_MarshalLogObject
               \<lparr>Status = code ww2, Bytes = bytes ww2, RespHeader = ResponseWriter_Header ww2,
                Elapsed = t2 - t1, Extra = ExtraLogEntry (written ops)\<rparr> []))],
          Stack = (addStack lg \<le> InfoLevel)\<rparr>]"
proof -
  let ?r1 = "r\<lparr>Body := NewBuffer (delivers (Body r))\<rparr>"
  let ?ctx = "Context (WithLogEntry ?r1 a)"
  let ?ww0 = "basicWriter_Tee (NewWrapResponseWriter w (ProtoMajor r)) []"
  obtain st1 where n: "zapdLogFormatter_NewLogEntry logger a r st = (a, ?r1, st1)"
    by (simp add: NewLogEntry_eq [OF assms])
  from n obtain started where s1: "sink st1 = sink st @ [started]"
      "Message started = ''Request started''" "Level started = InfoLevel"
    by (auto simp: NewLogEntry_eq [OF assms] sink_set_Logger)
  have nop1: "\<not> nop (Logger (entries st1 a))"
    using n assms by (auto simp: NewLogEntry_eq [OF assms] Logger_set_Logger)
  have ctx: "LogEntryCtxKey ?ctx = EntryPtr (Some a)"
    by (simp add: WithLogEntry_def)
  from run_ops_valid [OF ctx, of ops out ?ww0 st1] obtain ww2 st2 H where
    run: "run_ops ?ctx ops out (?ww0, st1) = ((ww2, st2), out)"
      "tee ww2 = map_option (\<lambda>t. t @ written ops) (tee ?ww0)"
      "bytes ww2 = bytes ?ww0 + int (length (written ops))"
      "sink st2 = sink st1 @ H"
      "nop (Logger (entries st2 a)) = nop (Logger (entries st1 a))"
    by blast
  have serve: "ServeHTTP (\<lambda>q. (ops, out)) ?ww0 (WithLogEntry ?r1 a) st1 = ((ww2, st2), out)"
    using run(1) by (simp add: ServeHTTP_def)
  have t: "tee ww2 = Some (written ops)" "bytes ww2 = int (length (written ops))"
    using run(2,3) by (simp_all add: basicWriter_Tee_def NewWrapResponseWriter_def)
  have nop2: "\<not> nop (Logger (entries st2 a))"
    using run(5) nop1 by simp
  let ?st3 = "zapLogEntry_Write a (code ww2) (bytes ww2) (ResponseWriter_Header ww2)
      (t2 - t1) (ExtraLogEntry (written ops)) st2"
  have z: "ZapRequestLogger logger (\<lambda>q. (ops, out)) a t1 t2 w r st = ((ww2, ?st3), out)"
    by (simp add: ZapRequestLogger_def n serve Let_def t ReadAll_NewBuffer Status_of_def
        BytesWritten_def)
  have s3: "sink ?st3 = sink st2 @
        [\<lparr>Level = InfoLevel, Message = ''Request complete'',
          Fields = with_fields (Logger (entries st2 a)) @
            [(''httpResponse'', ObjectV (httpResponseLog_MarshalLogObject
               \<lparr>Status = code ww2, Bytes = bytes ww2, RespHeader = ResponseWriter_Header ww2,
                Elapsed = t2 - t1, Extra = ExtraLogEntry (written ops)\<rparr> []))],
          Stack = (addStack (Logger (entries st2 a)) \<le> InfoLevel)\<rparr>]"
    using nop2 by (simp add: zapLogEntry_Write_def Info_def logger_log_def Let_def)
  from n s1 serve run(4) t nop2 z s3 show ?thesis by blast
qed

lemma ww0_fresh:
  "\<not> wroteHeader (basicWriter_Tee (NewWrapResponseWriter w pm) [])"
  "code (basicWriter_Tee (NewWrapResponseWriter w pm) []) = 0"
  by (simp_all add: basicWriter_Tee_def NewWrapResponseWriter_def)

lemma completion_record:
  assumes "\<not> nop logger"
  shows "\<exists>ww2 st2.
      run_ops (Context (WithLogEntry (r\<lparr>Body := NewBuffer (delivers (Body r))\<rparr>) a)) ops out
        (basicWriter_Tee (NewWrapResponseWriter w (ProtoMajor r)) [],
         snd (snd (zapdLogFormatter_NewLogEntry logger a r st))) = ((ww2, st2), out) \<and>
      Message (last_record (ZapRequestLogger logger (\<lambda>q. (ops, out)) a t1 t2 w r st)) =
        ''Request complete'' \<and>
      last_object (last_record (ZapRequestLogger logger (\<lambda>q. (ops, out)) a t1 t2 w r st)) =
        httpResponseLog_MarshalLogObject
          \<lparr>Status = code ww2, Bytes = int (length (written ops)),
           RespHeader = ResponseWriter_Header ww2, Elapsed = t2 - t1,
           Extra = ExtraLogEntry (written ops)\<rparr> []"
proof -
  from ZapRequestLogger_run [OF assms, of a r st ops out w t1 t2]
  obtain started :: log_record and H :: "log_record list" and lg :: logger
    and ww2 st1 st2 st3 where
    n: "zapdLogFormatter_NewLogEntry logger a r st =
        (a, r\<lparr>Body := NewBuffer (delivers (Body r))\<rparr>, st1)"
    and serve: "ServeHTTP (\<lambda>q. (ops, out))
        (basicWriter_Tee (NewWrapResponseWriter w (ProtoMajor r)) [])
        (WithLogEntry (r\<lparr>Body := NewBuffer (delivers (Body r))\<rparr>) a) st1 = ((ww2, st2), out)"
    and b: "bytes ww2 = int (length (written ops))"
    and z: "ZapRequestLogger logger (\<lambda>q. (ops, out)) a t1 t2 w r st = ((ww2, st3), out)"
    and s3: "sink st3 = sink st2 @
        [\<lparr>Level = InfoLevel, Message = ''Request complete'',
          Fields = with_fields lg @
            [(''httpResponse'', ObjectV (httpResponseLog_MarshalLogObject
               \<lparr>Status = code ww2, Bytes = bytes ww2, RespHeader = ResponseWriter_Header ww2,
                Elapsed = t2 - t1, Extra = ExtraLogEntry (written ops)\<rparr> []))],
          Stack = (addStack lg \<le> InfoLevel)\<rparr>]"
    by blast
  have "run_ops (Context (WithLogEntry (r\<lparr>Body := NewBuffer (delivers (Body r))\<rparr>) a)) ops out
        (basicWriter_Tee (NewWrapResponseWriter w (ProtoMajor r)) [],
         snd (snd (zapdLogFormatter_NewLogEntry logger a r st))) = ((ww2, st2), out)"
    using serve by (simp add: ServeHTTP_def n)
  moreover have "Message (last_record (ZapRequestLogger logger (\<lambda>q. (ops, out)) a t1 t2 w r st)) =
        ''Request complete''"
    by (simp add: last_record_def z s3)
  moreover have "last_object (last_record (ZapRequestLogger logger (\<lambda>q. (ops, out)) a t1 t2 w r st)) =
        httpResponseLog_MarshalLogObject
          \<lparr>Status = code ww2, Bytes = int (length (written ops)),
           RespHeader = ResponseWriter_Header ww2, Elapsed = t2 - t1,
           Extra = ExtraLogEntry (written ops)\<rparr> []"
    by (simp add: last_record_def last_object_def z s3 b)
  ultimately show ?thesis by blast
qed

section \<open>The records of one request\<close>

lemma ZapRequestLogger_const:
  "zapdLogFormatter_NewLogEntry logger a r st = (entry, r1, st1) \<Longrightarrow>
   ZapRequestLogger logger hdl a t1 t2 w r st =
     ZapRequestLogger logger
       (\<lambda>q. (fst (hdl (WithLogEntry r1 entry)), snd (hdl (WithLogEntry r1 entry))))
       a t1 t2 w r st"
  by (simp add: ZapRequestLogger_def ServeHTTP_def Let_def)

text \<open>
  Claim C2. For every request and every handler, and a logger whose core takes records,
  the sink receives, after what it held before: the record \<^verbatim>\<open>Request started\<close>,
  then the records \<open>H\<close> that the handler causes, then one record
  \<^verbatim>\<open>Request complete\<close>, and nothing else. The started record is in the sink of the state in which the handler is called. \<open>H\<close> is exactly what the
  call of the handler adds, so the interceptor emits the completion record once, after
  the handler, whether the handler returns or panics (the outcome, which the
  interceptor passes on unchanged, is arbitrary here); and a panic record, which only
  the handler's side can cause (a recovery layer calling \<^verbatim>\<open>Panic\<close>), is part of \<open>H\<close>
  and so comes before the completion record.
\<close>

theorem C2_record_order:
  assumes "\<not> nop logger"
  shows "\<exists>started H complete.
      sink (snd (fst (ZapRequestLogger logger hdl a t1 t2 w r st))) =
        sink st @ [started] @ H @ [complete] \<and>
      Message started = ''Request started'' \<and> Level started = InfoLevel \<and>
      Message complete = ''Request complete'' \<and> Level complete = InfoLevel \<and>
      (case zapdLogFormatter_NewLogEntry logger a r st of
         (entry, r1, st1) \<Rightarrow>
           sink st1 = sink st @ [started] \<and>
           sink (snd (fst (ServeHTTP hdl
             (basicWriter_Tee (NewWrapResponseWriter w (ProtoMajor r1)) [])
             (WithLogEntry r1 entry) st1))) = sink st1 @ H \<and>
           snd (ZapRequestLogger logger hdl a t1 t2 w r st) = snd (hdl (WithLogEntry r1 entry)))"
proof -
  let ?r1 = "r\<lparr>Body := NewBuffer (delivers (Body r))\<rparr>"
  let ?ops = "fst (hdl (WithLogEntry ?r1 a))"
  let ?out = "snd (hdl (WithLogEntry ?r1 a))"
  from ZapRequestLogger_run [OF assms, of a r st ?ops ?out w t1 t2]
  obtain started :: log_record and H :: "log_record list" and lg :: logger
    and ww2 st1 st2 st3 where
    n: "zapdLogFormatter_NewLogEntry logger a r st = (a, ?r1, st1)"
    and s1: "sink st1 = sink st @ [started]"
      "Message started = ''Request started''" "Level started = InfoLevel"
    and serve: "ServeHTTP (\<lambda>q. (?ops, ?out))
        (basicWriter_Tee (NewWrapResponseWriter w (ProtoMajor r)) [])
        (WithLogEntry ?r1 a) st1 = ((ww2, st2), ?out)"
    and s2: "sink st2 = sink st1 @ H"
    and z: "ZapRequestLogger logger (\<lambda>q. (?ops, ?out)) a t1 t2 w r st = ((ww2, st3), ?out)"
    and s3: "sink st3 = sink st2 @
        [\<lparr>Level = InfoLevel, Message = ''Request complete'',
          Fields = with_fields lg @
            [(''httpResponse'', ObjectV (httpResponseLog_MarshalLogObject
               \<lparr>Status = code ww2, Bytes = bytes ww2, RespHeader = ResponseWriter_Header ww2,
                Elapsed = t2 - t1, Extra = ExtraLogEntry (written ?ops)\<rparr> []))],
          Stack = (addStack lg \<le> InfoLevel)\<rparr>]"
    by blast
  let ?complete = "\<lparr>Level = InfoLevel, Message = ''Request complete'',
          Fields = with_fields lg @
            [(''httpResponse'', ObjectV (httpResponseLog_MarshalLogObject
               \<lparr>Status = code ww2, Bytes = bytes ww2, RespHeader = ResponseWriter_Header ww2,
                Elapsed = t2 - t1, Extra = ExtraLogEntry (written ?ops)\<rparr> []))],
          Stack = (addStack lg \<le> InfoLevel)\<rparr>"
  have z': "ZapRequestLogger logger hdl a t1 t2 w r st = ((ww2, st3), ?out)"
    using ZapRequestLogger_const [OF n, of hdl t1 t2 w] z by simp
  have serve': "ServeHTTP hdl (basicWriter_Tee (NewWrapResponseWriter w (ProtoMajor r)) [])
        (WithLogEntry ?r1 a) st1 = ((ww2, st2), ?out)"
    using serve by (simp add: ServeHTTP_def)
  have "sink (snd (fst (ZapRequestLogger logger hdl a t1 t2 w r st))) =
        sink st @ [started] @ H @ [?complete]"
    by (simp add: z' s3 s2 s1(1))
  moreover have "Message ?complete = ''Request complete''" "Level ?complete = InfoLevel"
    by simp_all
  moreover have "case zapdLogFormatter_NewLogEntry logger a r st of
         (entry, r1, st1) \<Rightarrow>
           sink st1 = sink st @ [started] \<and>
           sink (snd (fst (ServeHTTP hdl
             (basicWriter_Tee (NewWrapResponseWriter w (ProtoMajor r1)) [])
             (WithLogEntry r1 entry) st1))) = sink st1 @ H \<and>
           snd (ZapRequestLogger logger hdl a t1 t2 w r st) = snd (hdl (WithLogEntry r1 entry))"
    by (simp add: n s1(1) serve' s2 z')
  ultimately have "sink (snd (fst (ZapRequestLogger logger hdl a t1 t2 w r st))) =
        sink st @ [started] @ H @ [?complete] \<and>
      Message started = ''Request started'' \<and> Level started = InfoLevel \<and>
      Message ?complete = ''Request complete'' \<and> Level ?complete = InfoLevel \<and>
      (case zapdLogFormatter_NewLogEntry logger a r st of
         (entry, r1, st1) \<Rightarrow>
           sink st1 = sink st @ [started] \<and>
           sink (snd (fst (ServeHTTP hdl
             (basicWriter_Tee (NewWrapResponseWriter w (ProtoMajor r1)) [])
             (WithLogEntry r1 entry) st1))) = sink st1 @ H \<and>
           snd (ZapRequestLogger logger hdl a t1 t2 w r st) = snd (hdl (WithLogEntry r1 entry)))"
    using s1(2,3) by (intro conjI)
  then show ?thesis
    by (intro exI)
qed

theorem C2_witness:
  "\<not> nop example_logger \<and>
   map Message (sink (snd (fst (ZapRequestLogger example_logger
     (\<lambda>q. ([HWrite ''par'' [], HPanic (GoString ''oh no'') ''trace'', HWriteHeader 500], Returns))
     0 3 7 [] example_request example_state)))) =
     [''Request started'', ''Panic'', ''Request complete''] \<and>
   (\<exists>started H complete.
      sink (snd (fst (ZapRequestLogger example_logger
        (\<lambda>q. ([HLog LWarn ''warn here'' []], Panics (GoString ''oh no'')))
        0 3 7 [] example_request example_state))) = [started] @ H @ [complete] \<and>
      Message started = ''Request started'' \<and> Message complete = ''Request complete'') \<and>
   snd (ZapRequestLogger example_logger
        (\<lambda>q. ([HLog LWarn ''warn here'' []], Panics (GoString ''oh no'')))
        0 3 7 [] example_request example_state) = Panics (GoString ''oh no'')"
proof -
  have n: "\<not> nop example_logger" by (simp add: example_logger_def)
  have a: "map Message (sink (snd (fst (ZapRequestLogger example_logger
     (\<lambda>q. ([HWrite ''par'' [], HPanic (GoString ''oh no'') ''trace'', HWriteHeader 500], Returns))
     0 3 7 [] example_request example_state)))) =
     [''Request started'', ''Panic'', ''Request complete'']"
    by code_simp
  have e: "sink example_state = []" by (simp add: example_state_def)
  have "\<exists>started H complete.
      sink (snd (fst (ZapRequestLogger example_logger
        (\<lambda>q. ([HLog LWarn ''warn here'' []], Panics (GoString ''oh no'')))
        0 3 7 [] example_request example_state))) = [started] @ H @ [complete] \<and>
      Message started = ''Request started'' \<and> Message complete = ''Request complete''"
    using C2_record_order [OF n, where hdl = "\<lambda>q. ([HLog LWarn ''warn here'' []], Panics (GoString ''oh no''))"
      and a = 0 and w = "[]" and r = example_request and st = example_state, of 3 7]
    unfolding e by (elim exE conjE, intro exI conjI) simp_all
  moreover obtain entry r1 st1 where
    ne: "zapdLogFormatter_NewLogEntry example_logger 0 example_request example_state =
      (entry, r1, st1)"
    by (cases "zapdLogFormatter_NewLogEntry example_logger 0 example_request example_state")
  moreover have "snd (ZapRequestLogger example_logger
        (\<lambda>q. ([HLog LWarn ''warn here'' []], Panics (GoString ''oh no'')))
        0 3 7 [] example_request example_state) = Panics (GoString ''oh no'')"
    using C2_record_order [OF n, where hdl = "\<lambda>q. ([HLog LWarn ''warn here'' []], Panics (GoString ''oh no''))"
      and a = 0 and w = "[]" and r = example_request and st = example_state, of 3 7]
    unfolding ne by auto
  ultimately show ?thesis
    using n a by blast
qed

text \<open>
  The status in the completion record, for a handler that does the same on every
  request: without a call of \<^verbatim>\<open>WriteHeader\<close>, and with one that comes first.
\<close>

lemma status_without_WriteHeader:
  assumes "\<not> nop logger" and "\<not> list_ex is_WriteHeader ops"
  shows "Message (last_record (ZapRequestLogger logger (\<lambda>q. (ops, out)) a t1 t2 w r st)) =
           ''Request complete'' \<and>
         field_values ''status''
           (last_object (last_record (ZapRequestLogger logger (\<lambda>q. (ops, out)) a t1 t2 w r st))) =
           [IntV (if list_ex is_Write ops then 200 else 0)]"
proof -
  from completion_record [OF assms(1), of r a ops out w st t1 t2]
  obtain ww2 st2 where
    run: "run_ops (Context (WithLogEntry (r\<lparr>Body := NewBuffer (delivers (Body r))\<rparr>) a)) ops out
        (basicWriter_Tee (NewWrapResponseWriter w (ProtoMajor r)) [],
         snd (snd (zapdLogFormatter_NewLogEntry logger a r st))) = ((ww2, st2), out)"
    and m: "Message (last_record (ZapRequestLogger logger (\<lambda>q. (ops, out)) a t1 t2 w r st)) =
        ''Request complete''"
    and obj: "last_object (last_record (ZapRequestLogger logger (\<lambda>q. (ops, out)) a t1 t2 w r st)) =
        httpResponseLog_MarshalLogObject
          \<lparr>Status = code ww2, Bytes = int (length (written ops)),
           RespHeader = ResponseWriter_Header ww2, Elapsed = t2 - t1,
           Extra = ExtraLogEntry (written ops)\<rparr> []"
    by blast
  have ctx: "LogEntryCtxKey (Context (WithLogEntry (r\<lparr>Body := NewBuffer (delivers (Body r))\<rparr>) a)) =
      EntryPtr (Some a)"
    by (simp add: WithLogEntry_def)
  have "code ww2 = (if list_ex is_Write ops then 200 else 0)"
    using run_ops_code_none [OF ctx run ww0_fresh(1) assms(2)] by (simp add: ww0_fresh(2))
  with m obj show ?thesis
    by (simp add: httpResponse_fields)
qed


lemma status_with_WriteHeader:
  assumes "\<not> nop logger" and "ops = pre @ HWriteHeader S # rest"
    and "\<not> list_ex is_WriteHeader pre" and "\<not> list_ex is_Write pre"
  shows "Message (last_record (ZapRequestLogger logger (\<lambda>q. (ops, out)) a t1 t2 w r st)) =
           ''Request complete'' \<and>
         field_values ''status''
           (last_object (last_record (ZapRequestLogger logger (\<lambda>q. (ops, out)) a t1 t2 w r st))) =
           [IntV S] \<and>
         field_values ''bytes''
           (last_object (last_record (ZapRequestLogger logger (\<lambda>q. (ops, out)) a t1 t2 w r st))) =
           [IntV (int (length (written ops)))] \<and>
         field_values ''body''
           (last_object (last_record (ZapRequestLogger logger (\<lambda>q. (ops, out)) a t1 t2 w r st))) =
           (if written ops = [] then [] else [StringV (written ops)])"
proof -
  from completion_record [OF assms(1), of r a ops out w st t1 t2]
  obtain ww2 st2 where
    run: "run_ops (Context (WithLogEntry (r\<lparr>Body := NewBuffer (delivers (Body r))\<rparr>) a)) ops out
        (basicWriter_Tee (NewWrapResponseWriter w (ProtoMajor r)) [],
         snd (snd (zapdLogFormatter_NewLogEntry logger a r st))) = ((ww2, st2), out)"
    and m: "Message (last_record (ZapRequestLogger logger (\<lambda>q. (ops, out)) a t1 t2 w r st)) =
        ''Request complete''"
    and obj: "last_object (last_record (ZapRequestLogger logger (\<lambda>q. (ops, out)) a t1 t2 w r st)) =
        httpResponseLog_MarshalLogObject
          \<lparr>Status = code ww2, Bytes = int (length (written ops)),
           RespHeader = ResponseWriter_Header ww2, Elapsed = t2 - t1,
           Extra = ExtraLogEntry (written ops)\<rparr> []"
    by blast
  have ctx: "LogEntryCtxKey (Context (WithLogEntry (r\<lparr>Body := NewBuffer (delivers (Body r))\<rparr>) a)) =
      EntryPtr (Some a)"
    by (simp add: WithLogEntry_def)
  have "code ww2 = S"
    using run_ops_code_set [OF ctx run [unfolded assms(2)] ww0_fresh(1) assms(3,4)] .
  with m obj show ?thesis
    by (simp add: httpResponse_fields)
qed


text \<open>
  Claim C5, as amended. Let \<open>ops\<close> be what the handler does on the request it is given.
  If the handler never calls \<^verbatim>\<open>WriteHeader\<close>, the completion
  record reports status 200 when the handler has called \<^verbatim>\<open>Write\<close> at least once, and
  status 0 when it has not: \<^verbatim>\<open>Status()\<close> of chi's writer is the code of the header
  that went through the wrapper, and 0 as long as none has.
\<close>

theorem C5_default_status:
  assumes "\<not> nop logger"
    and "zapdLogFormatter_NewLogEntry logger a r st = (entry, r1, st1)"
    and "hdl (WithLogEntry r1 entry) = (ops, out)"
    and "\<not> list_ex is_WriteHeader ops"
  shows "Message (last_record (ZapRequestLogger logger hdl a t1 t2 w r st)) =
           ''Request complete'' \<and>
         field_values ''status''
           (last_object (last_record (ZapRequestLogger logger hdl a t1 t2 w r st))) =
           [IntV (if list_ex is_Write ops then 200 else 0)]"
proof -
  have "ZapRequestLogger logger hdl a t1 t2 w r st =
      ZapRequestLogger logger (\<lambda>q. (ops, out)) a t1 t2 w r st"
    using ZapRequestLogger_const [OF assms(2), of hdl t1 t2 w] by (simp add: assms(3))
  with status_without_WriteHeader [OF assms(1,4), of out a t1 t2 w r st]
  show ?thesis by simp
qed

theorem C5_witness:
  "\<not> nop example_logger \<and> \<not> list_ex is_WriteHeader [HWrite ''hello world'' []] \<and>
   field_values ''status'' (last_object (last_record (ZapRequestLogger example_logger
     (\<lambda>q. ([HWrite ''hello world'' []], Returns)) 0 3 7 [] example_request example_state))) =
     [IntV 200]"
proof -
  have n: "\<not> nop example_logger" by (simp add: example_logger_def)
  have h: "\<not> list_ex is_WriteHeader [HWrite ''hello world'' []]" by simp
  obtain entry r1 st1 where
    e: "zapdLogFormatter_NewLogEntry example_logger 0 example_request example_state =
      (entry, r1, st1)"
    by (cases "zapdLogFormatter_NewLogEntry example_logger 0 example_request example_state")
  have c: "(\<lambda>q. ([HWrite ''hello world'' []], Returns)) (WithLogEntry r1 entry) =
      ([HWrite ''hello world'' []], Returns)" by simp
  from C5_default_status [OF n e c h, of 3 7 "[]"] n h
  show ?thesis by simp
qed

text \<open>
  The claim as it was stated fails for the handler that returns without writing
  anything: the status in the completion record is 0, not 200.
\<close>

theorem C5_counterexample:
  "\<not> list_ex is_WriteHeader [] \<and>
   field_values ''status'' (last_object (last_record (ZapRequestLogger example_logger
     (\<lambda>q. ([], Returns)) 0 3 7 [] example_request example_state))) = [IntV 0]"
  by code_simp

text \<open>
  Claim C6. Let \<open>ops\<close> be what the handler does on the request it is given, and let
  the handler set the status \<open>S\<close>: it calls \<^verbatim>\<open>WriteHeader(S)\<close> before any
  \<^verbatim>\<open>Write\<close> and before any other \<^verbatim>\<open>WriteHeader\<close> (a later call does not change the
  status of a response). Let \<open>R = written ops\<close> be the bytes of its writes that the
  response writer took, in order. Then the last record is \<^verbatim>\<open>Request complete\<close>, and
  its \<^verbatim>\<open>httpResponse\<close> object has \<^verbatim>\<open>status\<close> \<open>S\<close>, \<^verbatim>\<open>bytes\<close> the length of \<open>R\<close>, and
  \<^verbatim>\<open>body\<close> \<open>R\<close>, or no field \<^verbatim>\<open>body\<close> when \<open>R\<close> is empty. This holds also when the
  handler panics afterwards.
\<close>

theorem C6_response_captured:
  assumes "\<not> nop logger"
    and "zapdLogFormatter_NewLogEntry logger a r st = (entry, r1, st1)"
    and "hdl (WithLogEntry r1 entry) = (ops, out)"
    and "ops = pre @ HWriteHeader S # rest"
    and "\<not> list_ex is_WriteHeader pre" and "\<not> list_ex is_Write pre"
  shows "Message (last_record (ZapRequestLogger logger hdl a t1 t2 w r st)) =
           ''Request complete'' \<and>
         field_values ''status''
           (last_object (last_record (ZapRequestLogger logger hdl a t1 t2 w r st))) =
           [IntV S] \<and>
         field_values ''bytes''
           (last_object (last_record (ZapRequestLogger logger hdl a t1 t2 w r st))) =
           [IntV (int (length (written ops)))] \<and>
         field_values ''body''
           (last_object (last_record (ZapRequestLogger logger hdl a t1 t2 w r st))) =
           (if written ops = [] then [] else [StringV (written ops)])"
proof -
  have "ZapRequestLogger logger hdl a t1 t2 w r st =
      ZapRequestLogger logger (\<lambda>q. (ops, out)) a t1 t2 w r st"
    using ZapRequestLogger_const [OF assms(2), of hdl t1 t2 w] by (simp add: assms(3))
  with status_with_WriteHeader [OF assms(1,4,5,6), of out a t1 t2 w r st]
  show ?thesis by simp
qed

theorem C6_witness:
  "\<not> nop example_logger \<and>
   field_values ''status'' (last_object (last_record (ZapRequestLogger example_logger
     (\<lambda>q. ([HHeaderPut ''Content-Type'' [''text/plain''], HWriteHeader 400,
            HWrite ''warn'' [], HWrite '' here'' []], Returns))
     0 3 7 [] example_request example_state))) = [IntV 400] \<and>
   field_values ''bytes'' (last_object (last_record (ZapRequestLogger example_logger
     (\<lambda>q. ([HHeaderPut ''Content-Type'' [''text/plain''], HWriteHeader 400,
            HWrite ''warn'' [], HWrite '' here'' []], Returns))
     0 3 7 [] example_request example_state))) = [IntV 9] \<and>
   field_values ''body'' (last_object (last_record (ZapRequestLogger example_logger
     (\<lambda>q. ([HHeaderPut ''Content-Type'' [''text/plain''], HWriteHeader 400,
            HWrite ''warn'' [], HWrite '' here'' []], Returns))
     0 3 7 [] example_request example_state))) = [StringV ''warn here'']"
proof -
  let ?ops = "[HHeaderPut ''Content-Type'' [''text/plain''], HWriteHeader 400,
            HWrite ''warn'' [], HWrite '' here'' []]"
  have n: "\<not> nop example_logger" by (simp add: example_logger_def)
  obtain entry r1 st1 where
    e: "zapdLogFormatter_NewLogEntry example_logger 0 example_request example_state =
      (entry, r1, st1)"
    by (cases "zapdLogFormatter_NewLogEntry example_logger 0 example_request example_state")
  have c: "(\<lambda>q. (?ops, Returns)) (WithLogEntry r1 entry) = (?ops, Returns)" by simp
  have o: "?ops = [HHeaderPut ''Content-Type'' [''text/plain'']] @ HWriteHeader 400 #
         [HWrite ''warn'' [], HWrite '' here'' []]" by simp
  have p: "\<not> list_ex is_WriteHeader [HHeaderPut ''Content-Type'' [''text/plain'']]"
    "\<not> list_ex is_Write [HHeaderPut ''Content-Type'' [''text/plain'']]" by simp_all
  from C6_response_captured [OF n e c o p, of 3 7 "[]"] n
  show ?thesis by simp
qed

text \<open>
  Claim C7, as amended. When \<^verbatim>\<open>Panic(v, stack)\<close> is called on the log entry of a request
  (chi's \<^verbatim>\<open>Recoverer\<close> does so when it is installed below the interceptor and has
  recovered a failure of the handler), exactly one record is emitted: at error level,
  with the message \<^verbatim>\<open>Panic\<close>, with the fields of the entry's logger followed by
  \<^verbatim>\<open>panic\<close>, the failure value as \<^verbatim>\<open>%+v\<close> prints it, and \<^verbatim>\<open>stack\<close>, the stack
  given; and zap attaches no stack trace of its own to it, whatever the logger's
  setting, since the call raises \<^verbatim>\<open>AddStacktrace\<close> above \<^verbatim>\<open>FatalLevel\<close>.
\<close>

theorem C7_panic_record:
  assumes "\<not> nop (Logger (entries st l))"
  shows "sink (zapLogEntry_Panic l v stack st) = sink st @
           [\<lparr>Level = ErrorLevel, Message = ''Panic'',
             Fields = with_fields (Logger (entries st l)) @
               [(''panic'', StringV (Sprintf_v v)), (''stack'', StringV stack)],
             Stack = False\<rparr>]"
  using assms
  by (simp add: zapLogEntry_Panic_def Error_def logger_log_def AddStacktrace_def
      FatalLevel_def ErrorLevel_def)


theorem C7_witness:
  "\<not> nop (Logger (entries (set_Logger 0 example_logger example_state) 0)) \<and>
   sink (zapLogEntry_Panic 0 (GoString ''oh no'') ''goroutine 7 [running]''
     (set_Logger 0 example_logger example_state)) =
     [\<lparr>Level = 2, Message = ''Panic'',
       Fields = [(''panic'', StringV ''oh no''), (''stack'', StringV ''goroutine 7 [running]'')],
       Stack = False\<rparr>] \<and>
   Stack (last (Error example_logger ''Panic'' [] [])) = True"
proof -
  have n: "\<not> nop (Logger (entries (set_Logger 0 example_logger example_state) 0))"
    by (simp add: Logger_set_Logger example_logger_def)
  have s: "Stack (last (Error example_logger ''Panic'' [] [])) = True"
    by (simp add: Error_def logger_log_def example_logger_def)
  from C7_panic_record [OF n, of "GoString ''oh no''" "''goroutine 7 [running]''"] n s
  show ?thesis
    by (simp add: Logger_set_Logger sink_set_Logger example_logger_def example_state_def
        ErrorLevel_def)
qed

text \<open>
  The claim as it was stated fails: the interceptor has no \<^verbatim>\<open>recover\<close>. When the
  handler's failure unwinds through it, the deferred function emits the completion
  record, the failure goes on to the caller, and no panic record is emitted.
\<close>

theorem C7_counterexample:
  "snd (ZapRequestLogger example_logger (\<lambda>q. ([], Panics (GoString ''oh no'')))
     0 3 7 [] example_request example_state) = Panics (GoString ''oh no'') \<and>
   map Message (sink (snd (fst (ZapRequestLogger example_logger
     (\<lambda>q. ([], Panics (GoString ''oh no''))) 0 3 7 [] example_request example_state)))) =
     [''Request started'', ''Request complete'']"
  by code_simp

section \<open>The logger of a context\<close>

text \<open>
  Claim C9. \<^verbatim>\<open>RawLogEntry\<close> and \<^verbatim>\<open>LogEntry\<close> return a logger for every context: the
  logger of the entry stored under the key when there is one, and the no-op logger when
  nothing is stored, when the stored value is of another type, or when it is a nil
  entry. The no-op logger drops every record, also after \<^verbatim>\<open>With\<close>. On a context with
  nothing (or a value of another type) under the key, \<^verbatim>\<open>LogEntrySetField\<close> and
  \<^verbatim>\<open>LogEntrySetFields\<close> return normally and change nothing.
\<close>

theorem C9_retrieval:
  "(LogEntryCtxKey ctx = EntryPtr (Some a) \<longrightarrow>
      RawLogEntry st ctx = Logger (entries st a) \<and>
      LogEntry st ctx = Sugar (Logger (entries st a))) \<and>
   (LogEntryCtxKey ctx \<in> {NoValue, OtherValue, EntryPtr None} \<longrightarrow>
      RawLogEntry st ctx = NewNop \<and> LogEntry st ctx = Sugar NewNop) \<and>
   logger_log NewNop lvl msg fs snk = snk \<and>
   logger_log (With NewNop fs') lvl msg fs snk = snk \<and>
   (LogEntryCtxKey ctx \<in> {NoValue, OtherValue} \<longrightarrow>
      LogEntrySetField st ctx k v = Inr st \<and> LogEntrySetFields st ctx kvs = Inr st)"
  by (auto simp: RawLogEntry_def LogEntry_def LogEntrySetField_def LogEntrySetFields_def
      logger_log_def With_def NewNop_def)


theorem C9_witness:
  "RawLogEntry example_state \<lparr>RequestIDKey = None, LogEntryCtxKey = NoValue\<rparr> = NewNop \<and>
   RawLogEntry example_state \<lparr>RequestIDKey = None, LogEntryCtxKey = OtherValue\<rparr> = NewNop \<and>
   RawLogEntry example_state \<lparr>RequestIDKey = None, LogEntryCtxKey = EntryPtr None\<rparr> = NewNop \<and>
   RawLogEntry (set_Logger 0 example_logger example_state)
     \<lparr>RequestIDKey = None, LogEntryCtxKey = EntryPtr (Some 0)\<rparr> = example_logger \<and>
   logger_log NewNop ErrorLevel ''err here'' [] [] = [] \<and>
   LogEntrySetField example_state \<lparr>RequestIDKey = None, LogEntryCtxKey = NoValue\<rparr>
     ''user'' (GoString ''u'') = Inr example_state \<and>
   LogEntrySetFields example_state \<lparr>RequestIDKey = None, LogEntryCtxKey = OtherValue\<rparr>
     [(''user'', GoString ''u'')] = Inr example_state"
  using
    C9_retrieval [of "\<lparr>RequestIDKey = None, LogEntryCtxKey = NoValue\<rparr>" 0 example_state
      ErrorLevel "''err here''" "[]" "[]" "[]" "''user''" "GoString ''u''" "[]"]
    C9_retrieval [of "\<lparr>RequestIDKey = None, LogEntryCtxKey = OtherValue\<rparr>" 0 example_state
      ErrorLevel "''err here''" "[]" "[]" "[]" "''user''" "GoString ''u''"
      "[(''user'', GoString ''u'')]"]
    C9_retrieval [of "\<lparr>RequestIDKey = None, LogEntryCtxKey = EntryPtr None\<rparr>" 0 example_state
      ErrorLevel "''err here''" "[]" "[]" "[]" "''user''" "GoString ''u''" "[]"]
    C9_retrieval [of "\<lparr>RequestIDKey = None, LogEntryCtxKey = EntryPtr (Some 0)\<rparr>" 0
      "set_Logger 0 example_logger example_state"
      ErrorLevel "''err here''" "[]" "[]" "[]" "''user''" "GoString ''u''" "[]"]
  by (simp add: Logger_set_Logger)

text \<open>The fields of the entry's logger after \<^verbatim>\<open>LogEntrySetFields\<close>.\<close>

lemma Logger_SetFields_loop:
  "\<not> nop (Logger (entries st a)) \<Longrightarrow>
   Logger (entries (LogEntrySetFields_loop a kvs st) a) =
     (Logger (entries st a))\<lparr>with_fields := with_fields (Logger (entries st a)) @
        map (\<lambda>(k, v). (k, ReflectV v)) kvs\<rparr>"
  by (induction a kvs st rule: LogEntrySetFields_loop.induct)
     (simp_all add: Logger_set_Logger With_def)

text \<open>
  Claim C10. Let the context hold an entry whose logger is not the no-op logger.
  \<^verbatim>\<open>RawLogEntry\<close> returns the logger that the entry holds at that moment. The
  logger retrieved before a call of \<^verbatim>\<open>LogEntrySetField\<close> is a value of its own: used
  after the call (on the sink of the state \<open>st1\<close> after the call), it logs with the
  fields it had, without the new one. The logger retrieved after the call has the new
  field after the old ones (after \<^verbatim>\<open>LogEntrySetFields\<close>: all the new fields, in the
  order of the iteration), \<^verbatim>\<open>LogEntry\<close> wraps the same loggers, and the completion
  record, which \<^verbatim>\<open>Write\<close> logs through the entry itself, has the new field too.
\<close>

theorem C10_copy:
  assumes "LogEntryCtxKey ctx = EntryPtr (Some a)" and "\<not> nop (Logger (entries st a))"
  shows "\<exists>st1 st2.
      RawLogEntry st ctx = Logger (entries st a) \<and>
      LogEntrySetField st ctx k v = Inr st1 \<and>
      LogEntrySetFields st ctx kvs = Inr st2 \<and>
      LogEntry st ctx = Sugar (RawLogEntry st ctx) \<and>
      LogEntry st1 ctx = Sugar (RawLogEntry st1 ctx) \<and>
      with_fields (RawLogEntry st1 ctx) = with_fields (RawLogEntry st ctx) @ [(k, ReflectV v)] \<and>
      with_fields (RawLogEntry st2 ctx) =
        with_fields (RawLogEntry st ctx) @ map (\<lambda>(k, v). (k, ReflectV v)) kvs \<and>
      logger_log (RawLogEntry st ctx) lvl msg fs (sink st1) = sink st1 @
        [\<lparr>Level = lvl, Message = msg, Fields = with_fields (RawLogEntry st ctx) @ fs,
          Stack = (addStack (RawLogEntry st ctx) \<le> lvl)\<rparr>] \<and>
      logger_log (RawLogEntry st1 ctx) lvl msg fs (sink st1) = sink st1 @
        [\<lparr>Level = lvl, Message = msg,
          Fields = with_fields (RawLogEntry st ctx) @ [(k, ReflectV v)] @ fs,
          Stack = (addStack (RawLogEntry st ctx) \<le> lvl)\<rparr>] \<and>
      sink (zapLogEntry_Write a s n h d x st1) = sink st1 @
        [\<lparr>Level = InfoLevel, Message = ''Request complete'',
          Fields = with_fields (RawLogEntry st ctx) @ [(k, ReflectV v)] @
            [(''httpResponse'', ObjectV (httpResponseLog_MarshalLogObject
               \<lparr>Status = s, Bytes = n, RespHeader = h, Elapsed = d, Extra = x\<rparr> []))],
          Stack = (addStack (RawLogEntry st ctx) \<le> InfoLevel)\<rparr>]"
  using assms
  by (simp add: LogEntrySetField_def LogEntrySetFields_def LogEntry_def RawLogEntry_def
      Logger_set_Logger Logger_SetFields_loop sink_set_Logger With_def logger_log_def
      zapLogEntry_Write_def Info_def Let_def)


theorem C10_witness:
  "LogEntryCtxKey \<lparr>RequestIDKey = None, LogEntryCtxKey = EntryPtr (Some 0)\<rparr> = EntryPtr (Some 0) \<and>
   \<not> nop (Logger (entries (set_Logger 0 example_logger example_state) 0)) \<and>
   (\<exists>st1.
      LogEntrySetField (set_Logger 0 example_logger example_state)
        \<lparr>RequestIDKey = None, LogEntryCtxKey = EntryPtr (Some 0)\<rparr> ''user'' (GoString ''u'') =
        Inr st1 \<and>
      with_fields (RawLogEntry (set_Logger 0 example_logger example_state)
        \<lparr>RequestIDKey = None, LogEntryCtxKey = EntryPtr (Some 0)\<rparr>) = [] \<and>
      with_fields (RawLogEntry st1 \<lparr>RequestIDKey = None, LogEntryCtxKey = EntryPtr (Some 0)\<rparr>) =
        [(''user'', ReflectV (GoString ''u''))])"
proof -
  let ?ctx = "\<lparr>RequestIDKey = None, LogEntryCtxKey = EntryPtr (Some 0)\<rparr>"
  let ?st = "set_Logger 0 example_logger example_state"
  have c: "LogEntryCtxKey ?ctx = EntryPtr (Some 0)" by simp
  have n: "\<not> nop (Logger (entries ?st 0))"
    by (simp add: Logger_set_Logger example_logger_def)
  have f: "with_fields (RawLogEntry ?st ?ctx) = []"
    by (simp add: RawLogEntry_def Logger_set_Logger example_logger_def)
  from C10_copy [OF c n, where k = "''user''" and v = "GoString ''u''" and kvs = "[]"
      and lvl = InfoLevel and msg = "''m''" and fs = "[]" and s = 200 and n = 0 and h = "[]" and d = 0
      and x = OtherExtra]
  obtain st1 where
    "LogEntrySetField ?st ?ctx ''user'' (GoString ''u'') = Inr st1"
    "with_fields (RawLogEntry st1 ?ctx) =
       with_fields (RawLogEntry ?st ?ctx) @ [(''user'', ReflectV (GoString ''u''))]"
    by blast
  with c n f show ?thesis by simp
qed

end
